theory Spec2Isabelle
  imports Main
begin

section \<open>tcp\_print2file: the accept-serve loop and the signal handler\<close>

text \<open>
  The program (\<^verbatim>\<open>tcp_print2file.c\<close>) is a single C file. After start-up it runs
  \<^verbatim>\<open>while(1) { accept; pick a file name; open; copy; close }\<close> over the static
  variables \<^verbatim>\<open>fd\<close>, \<^verbatim>\<open>sd\<close>, \<^verbatim>\<open>client\<close>, \<^verbatim>\<open>fd_open\<close>, \<^verbatim>\<open>client_connected\<close>, and
  \<^verbatim>\<open>sig_handler\<close> may run between any two statements.

  The embedding is a small-step machine. A state holds the program's variables, a program
  counter naming the next statement of the loop, and the part of the operating system the
  program talks to: the descriptor table, the files by name, the wall clock, and the
  sequence of calls made so far. Each statement is one function on states; what the
  operating system answers (the descriptor \<^verbatim>\<open>accept\<close> returns, the bytes \<^verbatim>\<open>read\<close>
  delivers, the count \<^verbatim>\<open>write\<close> reports, an arriving signal) is an event. An event that
  cannot be the answer to the statement at hand gives \<open>None\<close>.
\<close>

subsection \<open>Constants of the source\<close>

definition BUFSIZE :: nat where
  "BUFSIZE = 512"

definition PRINTOUT_PREFIX :: string where
  "PRINTOUT_PREFIX = ''/usb/tcp_fileprinter/''"

text \<open>\<^verbatim>\<open>char filename[64]\<close> and \<^verbatim>\<open>char timestamp[22]\<close>.\<close>

definition FILENAME_SIZE :: nat where
  "FILENAME_SIZE = 64"

definition TIMESTAMP_SIZE :: nat where
  "TIMESTAMP_SIZE = 22"

text \<open>Values of the system headers the source names (Linux).\<close>

definition EXIT_SUCCESS :: int where "EXIT_SUCCESS = 0"
definition RAND_MAX :: int where "RAND_MAX = 2147483647"
definition EBADF :: int where "EBADF = 9"
definition ENOENT :: int where "ENOENT = 2"
definition SIGHUP :: int where "SIGHUP = 1"
definition SIGINT :: int where "SIGINT = 2"
definition SIGTERM :: int where "SIGTERM = 15"
definition SIGTSTP :: int where "SIGTSTP = 20"
definition SIGTTIN :: int where "SIGTTIN = 21"
definition SIGTTOU :: int where "SIGTTOU = 22"

text \<open>\<^verbatim>\<open>S_IRUSR|S_IWUSR\<close>, octal 600.\<close>

definition S_IRUSR_S_IWUSR :: nat where
  "S_IRUSR_S_IWUSR = 384"

text \<open>The two arrays of \<^verbatim>\<open>install_sighandlers\<close>.\<close>

definition signals :: "int list" where
  "signals = [SIGHUP, SIGINT, SIGTERM]"

definition signals_ignore :: "int list" where
  "signals_ignore = [SIGTSTP, SIGTTIN, SIGTTOU]"

subsection \<open>Calls, events and the state\<close>

datatype priority = LOG_ERR | LOG_WARNING | LOG_NOTICE | LOG_INFO

text \<open>An argument of a \<^verbatim>\<open>syslog\<close> format: an int, a string, or \<^verbatim>\<open>strerror(errno)\<close>.\<close>

datatype arg = A_int int | A_str string | A_strerror int

datatype oflag = O_WRONLY | O_CREAT | O_TRUNC | O_EXCL

text \<open>
  What the program asks of the system, in order, with what came back. \<open>Write d buf r\<close>:
  the bytes handed to \<^verbatim>\<open>write\<close> and the count it reported.
\<close>

datatype call =
    Syslog priority string "arg list"
  | Accept int int
  | Rand int
  | Access string int
  | Open string "oflag list" nat int
  | Read int nat int
  | Write int string int
  | Close int int
  | Sync
  | Exit int

text \<open>An open descriptor: the listening socket, a client socket, or a file with its offset.\<close>

datatype handle = Listener | Conn | File string nat

text \<open>
  What the environment contributes to one step. \<open>Step\<close> drives a statement that takes
  nothing from outside; \<open>Tick\<close> lets wall-clock time pass.
\<close>

datatype event =
    Step
  | AcceptOk int
  | AcceptFail int
  | RandRet int
  | OpenOk int
  | OpenFail int
  | ReadData string
  | ReadEOF
  | ReadErr int
  | WriteRet nat
  | WriteErr int
  | Signal int
  | Tick nat

text \<open>The statements of the loop, lines 175 to 212 of the source.\<close>

datatype pc =
    P_accept
  | P_connected
  | P_localtime
  | P_rand
  | P_open
  | P_set_fd_open
  | P_read
  | P_write
  | P_done
  | P_close_fd
  | P_close_client
  | P_clear_fd_open
  | P_clear_connected
  | P_exited

record tm =
  tm_sec :: int
  tm_min :: int
  tm_hour :: int
  tm_mday :: int
  tm_mon :: int
  tm_year :: int

record state =
  pc :: pc
  fd :: int
  sd :: int
  client :: int
  fd_open :: bool
  client_connected :: bool
  msg :: string
  filename :: string
  bytes_read :: int
  random :: int
  t :: int
  errno :: int
  fds :: "int \<rightharpoonup> handle"
  fs :: "string \<rightharpoonup> string"
  now :: int
  trace :: "call list"
  exit_status :: "int option"

subsection \<open>Formatting: \<^verbatim>\<open>%i\<close>, \<^verbatim>\<open>strftime\<close>, \<^verbatim>\<open>snprintf\<close>\<close>

definition digit :: "nat \<Rightarrow> char" where
  "digit n = ''0123456789'' ! (n mod 10)"

function string_of_nat :: "nat \<Rightarrow> string" where
  "string_of_nat n = (if n < 10 then [digit n] else string_of_nat (n div 10) @ [digit n])"
  by pat_completeness auto
termination
  by (relation "measure (\<lambda>n. n)") auto

declare string_of_nat.simps [simp del]

definition string_of_int :: "int \<Rightarrow> string" where
  "string_of_int i = (if i < 0 then CHR ''-'' # string_of_nat (nat (- i)) else string_of_nat (nat i))"

text \<open>A two-digit field of \<^verbatim>\<open>strftime\<close> (\<^verbatim>\<open>%d\<close>, \<^verbatim>\<open>%m\<close>, \<^verbatim>\<open>%H\<close>, \<^verbatim>\<open>%M\<close>, \<^verbatim>\<open>%S\<close>).\<close>

definition pad2 :: "int \<Rightarrow> string" where
  "pad2 i = (if 0 \<le> i \<and> i < 10 then CHR ''0'' # string_of_int i else string_of_int i)"

text \<open>The expansion of \<^verbatim>\<open>"%d.%m.%Y-%T"\<close>.\<close>

definition format_tm :: "tm \<Rightarrow> string" where
  "format_tm x =
     pad2 (tm_mday x) @ ''.'' @ pad2 (tm_mon x + 1) @ ''.'' @ string_of_int (tm_year x + 1900)
       @ ''-'' @ pad2 (tm_hour x) @ '':'' @ pad2 (tm_min x) @ '':'' @ pad2 (tm_sec x)"

text \<open>
  \<^verbatim>\<open>strftime(timestamp, maxsize, ...)\<close> returns 0 when the text and its terminating
  zero do not fit into \<open>maxsize\<close> bytes, and the number of bytes otherwise.
\<close>

definition strftime :: "nat \<Rightarrow> tm \<Rightarrow> string option" where
  "strftime maxsize x = (if length (format_tm x) + 1 \<le> maxsize then Some (format_tm x) else None)"

text \<open>\<^verbatim>\<open>snprintf(buf, n, ...)\<close> keeps at most \<open>n - 1\<close> bytes of the text.\<close>

definition snprintf :: "nat \<Rightarrow> string \<Rightarrow> string" where
  "snprintf n str = take (n - 1) str"

definition nl :: string where
  "nl = [CHR 0x0A]"

subsection \<open>System calls\<close>

definition emit :: "call \<Rightarrow> state \<Rightarrow> state" where
  "emit c s = s\<lparr>trace := trace s @ [c]\<rparr>"

text \<open>
  \<^verbatim>\<open>close(d)\<close>: releases an open descriptor and returns 0; on a descriptor that is
  not open it returns -1 with \<^verbatim>\<open>EBADF\<close>.
\<close>

definition sys_close :: "int \<Rightarrow> state \<Rightarrow> int \<times> state" where
  "sys_close d s =
     (case fds s d of
        None \<Rightarrow> (- 1, emit (Close d (- 1)) (s\<lparr>errno := EBADF\<rparr>))
      | Some h \<Rightarrow> (0, emit (Close d 0) (s\<lparr>fds := (fds s)(d := None)\<rparr>)))"

text \<open>
  What \<^verbatim>\<open>open(name, flags, mode)\<close> does to the files when it succeeds: an existing
  file is cut to length 0 only under \<^verbatim>\<open>O_TRUNC\<close>, and refused under
  \<^verbatim>\<open>O_CREAT|O_EXCL\<close>; a missing file is created empty under \<^verbatim>\<open>O_CREAT\<close>.
\<close>

definition open_file :: "(string \<rightharpoonup> string) \<Rightarrow> string \<Rightarrow> oflag list \<Rightarrow> (string \<rightharpoonup> string) option" where
  "open_file files name flags =
     (case files name of
        Some old \<Rightarrow>
          if O_CREAT \<in> set flags \<and> O_EXCL \<in> set flags then None
          else Some (files(name \<mapsto> (if O_TRUNC \<in> set flags then [] else old)))
      | None \<Rightarrow> if O_CREAT \<in> set flags then Some (files(name \<mapsto> [])) else None)"

text \<open>
  Storing \<open>bs\<close> at offset \<open>off\<close> of a file's bytes: what lies before and after stays,
  a gap is filled with zeros.
\<close>

definition pwrite :: "string \<Rightarrow> nat \<Rightarrow> string \<Rightarrow> string" where
  "pwrite old off bs =
     take off old @ replicate (off - length old) (CHR 0x00) @ bs @ drop (off + length bs) old"

definition contents :: "(string \<rightharpoonup> string) \<Rightarrow> string \<Rightarrow> string" where
  "contents files name = (case files name of None \<Rightarrow> [] | Some c \<Rightarrow> c)"

text \<open>\<^verbatim>\<open>exit(status)\<close>: the process ends and the kernel closes every descriptor.\<close>

definition sys_exit :: "int \<Rightarrow> state \<Rightarrow> state" where
  "sys_exit status s =
     (emit (Exit status) s)\<lparr>exit_status := Some status, fds := Map.empty, pc := P_exited\<rparr>"

subsection \<open>\<^verbatim>\<open>sig_handler\<close>, lines 49 to 63\<close>

definition close_logged :: "string \<Rightarrow> int \<Rightarrow> state \<Rightarrow> state" where
  "close_logged what d s =
     (case sys_close d s of
        (r, s') \<Rightarrow>
          if r = - 1 then emit (Syslog LOG_WARNING what [A_strerror (errno s')]) s' else s')"

definition sig_handler :: "int \<Rightarrow> state \<Rightarrow> state" where
  "sig_handler signum s =
     (let s1 = emit (Syslog LOG_NOTICE
                 (''received signal %d, will close all open file descriptors and exit'' @ nl)
                 [A_int signum]) s;
          s2 = emit Sync s1;
          s3 = (if client_connected s2
                then close_logged (''signal handler: error closing client socket: %s'' @ nl) (client s2) s2
                else s2);
          s4 = (if fd_open s3
                then close_logged (''signal handler: error closing fd: %s'' @ nl) (fd s3) s3
                else s3);
          s5 = close_logged (''signal handler: error closing socket: %s'' @ nl) (sd s4) s4
      in sys_exit EXIT_SUCCESS s5)"

subsection \<open>The statements of the loop\<close>

text \<open>Lines 177 to 180: \<^verbatim>\<open>client = accept(sd, NULL, NULL)\<close>; on -1 a warning and \<^verbatim>\<open>continue\<close>.\<close>

definition do_accept :: "event \<Rightarrow> state \<Rightarrow> state option" where
  "do_accept ev s =
     (case ev of
        AcceptOk d \<Rightarrow>
          if 0 \<le> d \<and> fds s d = None \<and> fds s (sd s) = Some Listener
          then Some (emit (Accept (sd s) d)
                 (s\<lparr>client := d, fds := (fds s)(d \<mapsto> Conn), pc := P_connected\<rparr>))
          else None
      | AcceptFail e \<Rightarrow>
          Some (emit (Syslog LOG_WARNING (''error on accept(): %s'' @ nl) [A_strerror e])
            (emit (Accept (sd s) (- 1)) (s\<lparr>client := - 1, errno := e, pc := P_accept\<rparr>)))
      | _ \<Rightarrow> None)"

text \<open>Lines 182 and 183.\<close>

definition do_connected :: "event \<Rightarrow> state \<Rightarrow> state option" where
  "do_connected ev s =
     (case ev of
        Step \<Rightarrow>
          Some ((emit (Syslog LOG_INFO ''accepted new print client'' []) s)
                  \<lparr>client_connected := True, pc := P_localtime\<rparr>)
      | _ \<Rightarrow> None)"

text \<open>
  Lines 185 to 189. \<^verbatim>\<open>localtime\<close> is the C library's; it is the parameter \<open>lt\<close>, applied
  to the variable \<^verbatim>\<open>t\<close> as the source does.
\<close>

definition do_localtime :: "(int \<Rightarrow> tm option) \<Rightarrow> event \<Rightarrow> state \<Rightarrow> state option" where
  "do_localtime lt ev s =
     (case ev of
        Step \<Rightarrow>
          (case (case lt (t s) of None \<Rightarrow> None | Some x \<Rightarrow> strftime TIMESTAMP_SIZE x) of
             Some timestamp \<Rightarrow>
               Some (s\<lparr>filename := snprintf FILENAME_SIZE (PRINTOUT_PREFIX @ timestamp),
                       pc := P_open\<rparr>)
           | None \<Rightarrow>
               Some ((emit (Syslog LOG_WARNING (''error getting current time'' @ nl) []) s)
                       \<lparr>pc := P_rand\<rparr>))
      | _ \<Rightarrow> None)"

text \<open>
  Lines 190 to 193, one turn of the \<^verbatim>\<open>do ... while\<close>: \<^verbatim>\<open>access(filename, F_OK)\<close>
  is 0 when a file of that name exists and -1 otherwise.
\<close>

definition do_rand :: "event \<Rightarrow> state \<Rightarrow> state option" where
  "do_rand ev s =
     (case ev of
        RandRet r \<Rightarrow>
          if 0 \<le> r \<and> r \<le> RAND_MAX
          then (let name = snprintf FILENAME_SIZE (PRINTOUT_PREFIX @ ''file-'' @ string_of_int r);
                    res = (if fs s name = None then - 1 else 0)
                in Some ((emit (Access name res) (emit (Rand r) s))
                     \<lparr>random := r, filename := name,
                      errno := (if res = - 1 then ENOENT else errno s),
                      pc := (if res \<noteq> - 1 then P_rand else P_open)\<rparr>))
          else None
      | _ \<Rightarrow> None)"

text \<open>Lines 196 to 200: \<^verbatim>\<open>open(filename, O_CREAT|O_WRONLY, S_IRUSR|S_IWUSR)\<close>.\<close>

definition open_flags :: "oflag list" where
  "open_flags = [O_CREAT, O_WRONLY]"

definition do_open :: "event \<Rightarrow> state \<Rightarrow> state option" where
  "do_open ev s =
     (let s0 = emit (Syslog LOG_INFO ''start printing to %s'' [A_str (filename s)]) s
      in case ev of
        OpenOk d \<Rightarrow>
          (case open_file (fs s0) (filename s0) open_flags of
             Some files \<Rightarrow>
               if 0 \<le> d \<and> fds s0 d = None
               then Some (emit (Open (filename s0) open_flags S_IRUSR_S_IWUSR d)
                      (s0\<lparr>fd := d, fds := (fds s0)(d \<mapsto> File (filename s0) 0), fs := files,
                          pc := P_set_fd_open\<rparr>))
               else None
           | None \<Rightarrow> None)
      | OpenFail e \<Rightarrow>
          Some (emit (Syslog LOG_WARNING ''error opening printfile %s: %s''
                  [A_str (filename s0), A_strerror e])
            (emit (Open (filename s0) open_flags S_IRUSR_S_IWUSR (- 1))
               (s0\<lparr>fd := - 1, errno := e, pc := P_accept\<rparr>)))
      | _ \<Rightarrow> None)"

text \<open>Lines 202 and 203.\<close>

definition do_set_fd_open :: "event \<Rightarrow> state \<Rightarrow> state option" where
  "do_set_fd_open ev s =
     (case ev of
        Step \<Rightarrow> Some (s\<lparr>fd_open := True, bytes_read := 0, pc := P_read\<rparr>)
      | _ \<Rightarrow> None)"

text \<open>
  Line 204, the loop condition: \<^verbatim>\<open>(bytes_read = read(client, msg, BUFSIZE)) > 0\<close>.
  A read delivers between 1 and \<open>BUFSIZE\<close> bytes into the front of \<^verbatim>\<open>msg\<close>, or 0 at the
  end of the stream, or -1.
\<close>

definition do_read :: "event \<Rightarrow> state \<Rightarrow> state option" where
  "do_read ev s =
     (case ev of
        ReadData bs \<Rightarrow>
          if fds s (client s) = Some Conn \<and> 0 < length bs \<and> length bs \<le> BUFSIZE
          then Some (emit (Read (client s) BUFSIZE (int (length bs)))
                 (s\<lparr>msg := bs @ drop (length bs) (msg s), bytes_read := int (length bs),
                    pc := P_write\<rparr>))
          else None
      | ReadEOF \<Rightarrow>
          if fds s (client s) = Some Conn
          then Some (emit (Read (client s) BUFSIZE 0) (s\<lparr>bytes_read := 0, pc := P_done\<rparr>))
          else None
      | ReadErr e \<Rightarrow>
          Some (emit (Read (client s) BUFSIZE (- 1))
            (s\<lparr>bytes_read := - 1, errno := e, pc := P_done\<rparr>))
      | _ \<Rightarrow> None)"

text \<open>
  Line 204, the loop body: \<^verbatim>\<open>write(fd, msg, bytes_read)\<close>, its result dropped. The
  system stores the first \<open>k\<close> of the bytes handed over, at the file's offset, and reports
  \<open>k\<close>; or it stores nothing and reports -1.
\<close>

definition do_write :: "event \<Rightarrow> state \<Rightarrow> state option" where
  "do_write ev s =
     (let buf = take (nat (bytes_read s)) (msg s)
      in case ev of
        WriteRet k \<Rightarrow>
          (case fds s (fd s) of
             Some (File name off) \<Rightarrow>
               if k \<le> length buf
               then Some (emit (Write (fd s) buf (int k))
                      (s\<lparr>fs := (fs s)(name \<mapsto> pwrite (contents (fs s) name) off (take k buf)),
                         fds := (fds s)(fd s \<mapsto> File name (off + k)),
                         pc := P_read\<rparr>))
               else None
           | _ \<Rightarrow> None)
      | WriteErr e \<Rightarrow>
          Some (emit (Write (fd s) buf (- 1)) (s\<lparr>errno := e, pc := P_read\<rparr>))
      | _ \<Rightarrow> None)"

text \<open>Lines 206 and 207.\<close>

definition do_done :: "event \<Rightarrow> state \<Rightarrow> state option" where
  "do_done ev s =
     (case ev of
        Step \<Rightarrow>
          Some ((emit (Syslog LOG_INFO ''done printing to %s'' [A_str (filename s)]) s)
                  \<lparr>msg := replicate BUFSIZE (CHR 0x00), pc := P_close_fd\<rparr>)
      | _ \<Rightarrow> None)"

text \<open>Line 208, \<^verbatim>\<open>close(fd)\<close>, and line 209, \<^verbatim>\<open>close(client)\<close>; the results are dropped.\<close>

definition do_close_fd :: "event \<Rightarrow> state \<Rightarrow> state option" where
  "do_close_fd ev s =
     (case ev of
        Step \<Rightarrow> Some ((snd (sys_close (fd s) s))\<lparr>pc := P_close_client\<rparr>)
      | _ \<Rightarrow> None)"

definition do_close_client :: "event \<Rightarrow> state \<Rightarrow> state option" where
  "do_close_client ev s =
     (case ev of
        Step \<Rightarrow> Some ((snd (sys_close (client s) s))\<lparr>pc := P_clear_fd_open\<rparr>)
      | _ \<Rightarrow> None)"

text \<open>Lines 210 and 211.\<close>

definition do_clear_fd_open :: "event \<Rightarrow> state \<Rightarrow> state option" where
  "do_clear_fd_open ev s =
     (case ev of
        Step \<Rightarrow> Some (s\<lparr>fd_open := False, pc := P_clear_connected\<rparr>)
      | _ \<Rightarrow> None)"

definition do_clear_connected :: "event \<Rightarrow> state \<Rightarrow> state option" where
  "do_clear_connected ev s =
     (case ev of
        Step \<Rightarrow> Some (s\<lparr>client_connected := False, pc := P_accept\<rparr>)
      | _ \<Rightarrow> None)"

subsection \<open>Steps and runs\<close>

definition statement :: "(int \<Rightarrow> tm option) \<Rightarrow> event \<Rightarrow> state \<Rightarrow> state option" where
  "statement lt ev s =
     (case pc s of
        P_accept \<Rightarrow> do_accept ev s
      | P_connected \<Rightarrow> do_connected ev s
      | P_localtime \<Rightarrow> do_localtime lt ev s
      | P_rand \<Rightarrow> do_rand ev s
      | P_open \<Rightarrow> do_open ev s
      | P_set_fd_open \<Rightarrow> do_set_fd_open ev s
      | P_read \<Rightarrow> do_read ev s
      | P_write \<Rightarrow> do_write ev s
      | P_done \<Rightarrow> do_done ev s
      | P_close_fd \<Rightarrow> do_close_fd ev s
      | P_close_client \<Rightarrow> do_close_client ev s
      | P_clear_fd_open \<Rightarrow> do_clear_fd_open ev s
      | P_clear_connected \<Rightarrow> do_clear_connected ev s
      | P_exited \<Rightarrow> None)"

text \<open>
  A signal of \<^verbatim>\<open>signals\<close> runs \<^verbatim>\<open>sig_handler\<close> wherever the loop stands; one of
  \<^verbatim>\<open>signals_ignore\<close> changes nothing; any other signal is outside the model. Nothing
  happens after \<^verbatim>\<open>exit\<close>.
\<close>

definition step :: "(int \<Rightarrow> tm option) \<Rightarrow> event \<Rightarrow> state \<Rightarrow> state option" where
  "step lt ev s =
     (if pc s = P_exited then None
      else case ev of
        Signal signum \<Rightarrow>
          if signum \<in> set signals then Some (sig_handler signum s)
          else if signum \<in> set signals_ignore then Some s
          else None
      | Tick k \<Rightarrow> Some (s\<lparr>now := now s + int k\<rparr>)
      | _ \<Rightarrow> statement lt ev s)"

fun run :: "(int \<Rightarrow> tm option) \<Rightarrow> event list \<Rightarrow> state \<Rightarrow> state option" where
  "run lt [] s = Some s"
| "run lt (ev # evs) s = (case step lt ev s of None \<Rightarrow> None | Some s' \<Rightarrow> run lt evs s')"

text \<open>
  The state on entry to the loop (line 175): \<^verbatim>\<open>t = time(NULL)\<close> was taken at line 138,
  the statics are zero, \<^verbatim>\<open>msg\<close> and \<^verbatim>\<open>filename\<close> are zero-filled, and the listening
  socket \<open>sd0\<close> is the one open descriptor. \<open>files\<close> is what the disk holds.
\<close>

definition init :: "int \<Rightarrow> int \<Rightarrow> (string \<rightharpoonup> string) \<Rightarrow> state" where
  "init t0 sd0 files =
     \<lparr>pc = P_accept, fd = 0, sd = sd0, client = 0, fd_open = False, client_connected = False,
      msg = replicate BUFSIZE (CHR 0x00), filename = [], bytes_read = 0, random = 0, t = t0,
      errno = 0, fds = [sd0 \<mapsto> Listener], fs = files, now = t0, trace = [],
      exit_status = None\<rparr>"

subsection \<open>Observations on runs\<close>

text \<open>
  One turn of the copy loop as the environment sees it: the bytes a read delivers and the
  answer to the write that follows. \<open>chunk_ok\<close>: the read delivers between 1 and
  \<open>BUFSIZE\<close> bytes and the write reports at most what it was handed, or fails.
\<close>

definition chunk_ok :: "string \<times> event \<Rightarrow> bool" where
  "chunk_ok cw =
     (0 < length (fst cw) \<and> length (fst cw) \<le> BUFSIZE \<and>
      (case snd cw of WriteRet k \<Rightarrow> k \<le> length (fst cw) | WriteErr e \<Rightarrow> True | _ \<Rightarrow> False))"

definition copy_events :: "(string \<times> event) list \<Rightarrow> event list" where
  "copy_events cws = concat (map (\<lambda>cw. [ReadData (fst cw), snd cw]) cws)"

text \<open>What \<^verbatim>\<open>write\<close> returns under an answer, and the bytes it stored.\<close>

definition write_result :: "event \<Rightarrow> int" where
  "write_result w = (case w of WriteRet k \<Rightarrow> int k | _ \<Rightarrow> - 1)"

definition stored_of :: "string \<times> event \<Rightarrow> string" where
  "stored_of cw = (case snd cw of WriteRet k \<Rightarrow> take k (fst cw) | _ \<Rightarrow> [])"

definition stored :: "(string \<times> event) list \<Rightarrow> string" where
  "stored cws = concat (map stored_of cws)"

text \<open>The calls of the copy loop on client socket \<open>c\<close> and file descriptor \<open>d\<close>.\<close>

definition copy_calls :: "int \<Rightarrow> int \<Rightarrow> (string \<times> event) list \<Rightarrow> call list" where
  "copy_calls c d cws =
     concat (map (\<lambda>cw. [Read c BUFSIZE (int (length (fst cw))), Write d (fst cw) (write_result (snd cw))]) cws)"

text \<open>A client whose every write is complete: the chunks paired with full counts.\<close>

definition full_writes :: "string list \<Rightarrow> (string \<times> event) list" where
  "full_writes chunks = map (\<lambda>c. (c, WriteRet (length c))) chunks"

text \<open>The bytes a sequence of calls stored into files, in order.\<close>

fun written :: "call list \<Rightarrow> string" where
  "written [] = []"
| "written (Write d buf r # cs) = take (nat r) buf @ written cs"
| "written (c # cs) = written cs"

text \<open>The reads a sequence of calls made on descriptor \<open>d\<close>.\<close>

fun reads_on :: "int \<Rightarrow> call list \<Rightarrow> call list" where
  "reads_on d [] = []"
| "reads_on d (Read d' n r # cs) = (if d' = d then Read d' n r # reads_on d cs else reads_on d cs)"
| "reads_on d (c # cs) = reads_on d cs"

text \<open>The calls made after the first \<open>n\<close>.\<close>

definition calls_since :: "state \<Rightarrow> state \<Rightarrow> call list" where
  "calls_since s s' = drop (length (trace s)) (trace s')"

definition is_open_event :: "event \<Rightarrow> bool" where
  "is_open_event ev = (case ev of OpenOk d \<Rightarrow> True | OpenFail e \<Rightarrow> True | _ \<Rightarrow> False)"

definition is_open_failure :: "event \<Rightarrow> bool" where
  "is_open_failure ev = (case ev of OpenFail e \<Rightarrow> True | _ \<Rightarrow> False)"

definition open_files :: "state \<Rightarrow> int set" where
  "open_files s = {d. \<exists>name off. fds s d = Some (File name off)}"

definition open_clients :: "state \<Rightarrow> int set" where
  "open_clients s = {d. fds s d = Some Conn}"

subsection \<open>A concrete \<^verbatim>\<open>localtime\<close> for examples\<close>

text \<open>
  The broken-down time of \<open>x\<close> seconds after the epoch in the UTC zone (the proleptic
  Gregorian calendar, by days since 1 March 0000: \<open>z\<close> the day number, \<open>era\<close> the
  400-year cycle, \<open>doe\<close>, \<open>yoe\<close> and \<open>doy\<close> the day of the cycle, the year of the cycle
  and the day of the year, \<open>mp\<close> the month counted from March). It stands for the C
  library in the concrete runs below; the theorems hold for every \<open>lt\<close>.
\<close>

definition tm_of_mp :: "int \<Rightarrow> int \<Rightarrow> int \<Rightarrow> int \<Rightarrow> tm option" where
  "tm_of_mp x y doy mp =
     Some \<lparr>tm_sec = x mod 60, tm_min = x mod 3600 div 60, tm_hour = x mod 86400 div 3600,
           tm_mday = doy - (153 * mp + 2) div 5 + 1,
           tm_mon = (if mp < 10 then mp + 2 else mp - 10),
           tm_year = y + (if mp < 10 then 0 else 1) - 1900\<rparr>"

definition tm_of_doy :: "int \<Rightarrow> int \<Rightarrow> int \<Rightarrow> tm option" where
  "tm_of_doy x y doy = tm_of_mp x y doy ((5 * doy + 2) div 153)"

definition tm_of_yoe :: "int \<Rightarrow> int \<Rightarrow> int \<Rightarrow> int \<Rightarrow> tm option" where
  "tm_of_yoe x era doe yoe =
     tm_of_doy x (yoe + era * 400) (doe - (365 * yoe + yoe div 4 - yoe div 100))"

definition tm_of_doe :: "int \<Rightarrow> int \<Rightarrow> int \<Rightarrow> tm option" where
  "tm_of_doe x era doe =
     tm_of_yoe x era doe ((doe - doe div 1460 + doe div 36524 - doe div 146096) div 365)"

definition tm_of_days :: "int \<Rightarrow> int \<Rightarrow> tm option" where
  "tm_of_days x z = tm_of_doe x (z div 146097) (z mod 146097)"

definition gmtime :: "int \<Rightarrow> tm option" where
  "gmtime x = tm_of_days x (x div 86400 + 719468)"

subsection \<open>Invariants of the loop\<close>

text \<open>
  The program counters at which the output file is open, at which \<^verbatim>\<open>fd_open\<close> is set,
  at which the accepted socket is open, and at which \<^verbatim>\<open>client_connected\<close> is set.
\<close>

definition file_pcs :: "pc set" where
  "file_pcs = {P_set_fd_open, P_read, P_write, P_done, P_close_fd}"

definition fd_open_pcs :: "pc set" where
  "fd_open_pcs = {P_read, P_write, P_done, P_close_fd, P_close_client, P_clear_fd_open}"

definition conn_pcs :: "pc set" where
  "conn_pcs = {P_connected, P_localtime, P_rand, P_open, P_set_fd_open, P_read, P_write, P_done,
     P_close_fd, P_close_client}"

definition connected_pcs :: "pc set" where
  "connected_pcs = {P_localtime, P_rand, P_open, P_set_fd_open, P_read, P_write, P_done,
     P_close_fd, P_close_client, P_clear_fd_open, P_clear_connected}"

fun is_file :: "handle option \<Rightarrow> bool" where
  "is_file (Some (File name off)) = True"
| "is_file h = False"

fun file_name :: "handle option \<Rightarrow> string" where
  "file_name (Some (File name off)) = name"
| "file_name h = []"

fun file_off :: "handle option \<Rightarrow> nat" where
  "file_off (Some (File name off)) = off"
| "file_off h = 0"

definition inv :: "state \<Rightarrow> bool" where
  "inv s =
     ((pc s \<noteq> P_exited \<longrightarrow> fds s (sd s) = Some Listener) \<and>
      (\<forall>d. is_file (fds s d) \<longrightarrow> d = fd s \<and> pc s \<in> file_pcs) \<and>
      (pc s \<in> file_pcs \<longrightarrow>
         is_file (fds s (fd s)) \<and> file_name (fds s (fd s)) = filename s \<and>
         fs s (filename s) \<noteq> None \<and>
         file_off (fds s (fd s)) \<le> length (contents (fs s) (filename s))) \<and>
      (pc s \<noteq> P_exited \<longrightarrow> fd_open s = (pc s \<in> fd_open_pcs)) \<and>
      (pc s \<in> conn_pcs \<longrightarrow> fds s (client s) = Some Conn) \<and>
      (pc s \<in> connected_pcs \<longrightarrow> client_connected s) \<and>
      (\<forall>d. fds s d = Some Conn \<longrightarrow> 0 \<le> d))"

text \<open>The variables the copy loop leaves alone.\<close>

definition same_vars :: "state \<Rightarrow> state \<Rightarrow> bool" where
  "same_vars s s' =
     (fd s' = fd s \<and> sd s' = sd s \<and> client s' = client s \<and> fd_open s' = fd_open s \<and>
      client_connected s' = client_connected s \<and> filename s' = filename s \<and> t s' = t s \<and>
      now s' = now s \<and> random s' = random s \<and> exit_status s' = exit_status s)"

subsection \<open>What a logged close adds to the calls\<close>

text \<open>
  The calls of one \<^verbatim>\<open>if (close(d) == -1) syslog(LOG_WARNING, what, strerror(errno))\<close>
  against descriptor table \<open>tab\<close>, and the table after a close that is made only when the
  flag \<open>b\<close> is set.
\<close>

definition close_calls :: "string \<Rightarrow> int \<Rightarrow> (int \<rightharpoonup> handle) \<Rightarrow> call list" where
  "close_calls what d tab =
     (if tab d = None then [Close d (- 1), Syslog LOG_WARNING what [A_strerror EBADF]]
      else [Close d 0])"

definition closed_if :: "bool \<Rightarrow> int \<Rightarrow> (int \<rightharpoonup> handle) \<Rightarrow> (int \<rightharpoonup> handle)" where
  "closed_if b d tab = (if b then tab(d := None) else tab)"

subsection \<open>One print job\<close>

text \<open>
  The events of one job from the open onwards: the open succeeds with descriptor \<open>d\<close>,
  the copy loop takes the turns \<open>cws\<close>, the read \<open>fin\<close> ends it (end of stream, or an
  error), and the five statements of lines 206 to 211 follow. \<open>job_calls\<close> are the calls
  the program makes on the way.
\<close>

definition read_result :: "event \<Rightarrow> int" where
  "read_result fin = (case fin of ReadEOF \<Rightarrow> 0 | _ \<Rightarrow> - 1)"

definition ends_read :: "event \<Rightarrow> bool" where
  "ends_read fin = (case fin of ReadEOF \<Rightarrow> True | ReadErr e \<Rightarrow> True | _ \<Rightarrow> False)"

definition job_events :: "int \<Rightarrow> (string \<times> event) list \<Rightarrow> event \<Rightarrow> event list" where
  "job_events d cws fin = [OpenOk d, Step] @ copy_events cws @ [fin, Step, Step, Step, Step, Step]"

definition job_calls :: "string \<Rightarrow> int \<Rightarrow> int \<Rightarrow> (string \<times> event) list \<Rightarrow> event \<Rightarrow> call list" where
  "job_calls name c d cws fin =
     [Syslog LOG_INFO ''start printing to %s'' [A_str name], Open name open_flags S_IRUSR_S_IWUSR d]
       @ copy_calls c d cws
       @ [Read c BUFSIZE (read_result fin), Syslog LOG_INFO ''done printing to %s'' [A_str name],
          Close d 0, Close c 0]"

text \<open>A chunk a read can deliver.\<close>

definition sized :: "string \<Rightarrow> bool" where
  "sized c = (0 < length c \<and> length c \<le> BUFSIZE)"

text \<open>
  Observations of a run from \<open>s\<close> under the events \<open>evs\<close>: the bytes of the file
  \<open>name\<close> afterwards, and the bytes the run stored by its writes. \<open>None\<close>: the events
  are not a run.
\<close>

definition file_after :: "(int \<Rightarrow> tm option) \<Rightarrow> event list \<Rightarrow> state \<Rightarrow> string \<Rightarrow> string option" where
  "file_after lt evs s name =
     (case run lt evs s of None \<Rightarrow> None | Some s' \<Rightarrow> Some (contents (fs s') name))"

definition written_after :: "(int \<Rightarrow> tm option) \<Rightarrow> event list \<Rightarrow> state \<Rightarrow> string option" where
  "written_after lt evs s =
     (case run lt evs s of None \<Rightarrow> None | Some s' \<Rightarrow> Some (written (calls_since s s')))"

subsection \<open>A concrete run\<close>

text \<open>
  The daemon was started at 13 May 2014, 16:53:20 UTC, with the listening socket on
  descriptor 3 and an empty output directory; \<open>ex_open\<close> is the state in which the first
  client has been accepted on descriptor 4 and the file name has been chosen.
\<close>

definition ex_name :: string where
  "ex_name = ''/usb/tcp_fileprinter/13.05.2014-16:53:20''"

definition ex_open :: state where
  "ex_open =
     \<lparr>pc = P_open, fd = 0, sd = 3, client = 4, fd_open = False, client_connected = True,
      msg = replicate 512 (CHR 0x00), filename = ex_name, bytes_read = 0, random = 0,
      t = 1400000000, errno = 0, fds = [3 \<mapsto> Listener, 4 \<mapsto> Conn], fs = Map.empty,
      now = 1400000000,
      trace = [Accept 3 4, Syslog LOG_INFO ''accepted new print client'' []],
      exit_status = None\<rparr>"

text \<open>
  The files a sequence of calls opened, in order, and, for a run, each of them with the
  bytes it holds when the run is over.
\<close>

fun opened :: "call list \<Rightarrow> string list" where
  "opened [] = []"
| "opened (Open name flags mode r # cs) = (if 0 \<le> r then name # opened cs else opened cs)"
| "opened (c # cs) = opened cs"

definition name_and_bytes :: "(string \<rightharpoonup> string) \<Rightarrow> string \<Rightarrow> string \<times> string" where
  "name_and_bytes files name = (name, contents files name)"

definition outputs_after :: "(int \<Rightarrow> tm option) \<Rightarrow> event list \<Rightarrow> state \<Rightarrow> (string \<times> string) list option" where
  "outputs_after lt evs s =
     (case run lt evs s of
        None \<Rightarrow> None
      | Some s' \<Rightarrow> Some (map (name_and_bytes (fs s')) (opened (calls_since s s'))))"

text \<open>
  \<open>ex_open_old\<close>: the same moment when the output directory already held a file of
  the chosen name. \<open>ex_read\<close>: the first client's file has been opened on descriptor 5
  and the copy loop is about to read.
\<close>

definition ex_open_old :: state where
  "ex_open_old = ex_open\<lparr>fs := [ex_name \<mapsto> ''OLD JOB DATA'']\<rparr>"

definition ex_read :: state where
  "ex_read =
     ex_open\<lparr>pc := P_read, fd := 5, fd_open := True,
       fds := [3 \<mapsto> Listener, 4 \<mapsto> Conn, 5 \<mapsto> File ex_name 0], fs := [ex_name \<mapsto> []],
       trace := [Accept 3 4, Syslog LOG_INFO ''accepted new print client'' [],
                 Syslog LOG_INFO ''start printing to %s'' [A_str ex_name],
                 Open ex_name [O_CREAT, O_WRONLY] 384 5]\<rparr>"

subsection \<open>Further invariants\<close>

text \<open>
  \<open>tidy\<close>: no client socket is open but the one in \<^verbatim>\<open>client\<close>, and
  \<^verbatim>\<open>client_connected\<close> is set at exactly the statements between its two assignments.
  \<open>parked c\<close>: the socket \<open>c\<close> is open and out of the program's reach: neither
  \<^verbatim>\<open>fd\<close> nor, past the next \<^verbatim>\<open>accept\<close>, \<^verbatim>\<open>client\<close> holds it. \<open>sel_pcs\<close>: the
  statements between \<^verbatim>\<open>accept\<close> and \<^verbatim>\<open>open\<close>.
\<close>

definition tidy :: "state \<Rightarrow> bool" where
  "tidy s =
     ((pc s \<in> conn_pcs \<longrightarrow> (\<forall>d. d \<noteq> client s \<longrightarrow> fds s d \<noteq> Some Conn)) \<and>
      (pc s \<notin> conn_pcs \<longrightarrow> (\<forall>d. fds s d \<noteq> Some Conn)) \<and>
      (pc s \<noteq> P_exited \<longrightarrow> client_connected s = (pc s \<in> connected_pcs)))"

definition parked :: "int \<Rightarrow> state \<Rightarrow> bool" where
  "parked c s =
     (0 \<le> c \<and>
      (pc s \<noteq> P_exited \<longrightarrow>
         fds s c = Some Conn \<and> fd s \<noteq> c \<and> (client s = c \<longrightarrow> pc s = P_accept)))"

definition sel_pcs :: "pc set" where
  "sel_pcs = {P_connected, P_localtime, P_rand, P_open}"

text \<open>
  \<open>lost c\<close>: the socket \<open>c\<close> is open and no variable of the program holds it.
\<close>

definition lost :: "int \<Rightarrow> state \<Rightarrow> bool" where
  "lost c s =
     (0 \<le> c \<and> (pc s \<noteq> P_exited \<longrightarrow> fds s c = Some Conn \<and> fd s \<noteq> c \<and> client s \<noteq> c))"

text \<open>
  More observations of a run: the descriptor table at the descriptors \<open>ds\<close>, the two
  flags (\<^verbatim>\<open>client_connected\<close>, \<^verbatim>\<open>fd_open\<close>), and the wall clock with the chosen file
  name.
\<close>

definition handles_after :: "(int \<Rightarrow> tm option) \<Rightarrow> event list \<Rightarrow> state \<Rightarrow> int list \<Rightarrow> handle option list option" where
  "handles_after lt evs s ds =
     (case run lt evs s of None \<Rightarrow> None | Some s' \<Rightarrow> Some (map (fds s') ds))"

definition flags_after :: "(int \<Rightarrow> tm option) \<Rightarrow> event list \<Rightarrow> state \<Rightarrow> (bool \<times> bool) option" where
  "flags_after lt evs s =
     (case run lt evs s of None \<Rightarrow> None | Some s' \<Rightarrow> Some (client_connected s', fd_open s'))"

definition clock_and_name_after :: "(int \<Rightarrow> tm option) \<Rightarrow> event list \<Rightarrow> state \<Rightarrow> (int \<times> string) option" where
  "clock_and_name_after lt evs s =
     (case run lt evs s of None \<Rightarrow> None | Some s' \<Rightarrow> Some (now s', filename s'))"

text \<open>
  A C library whose \<^verbatim>\<open>localtime\<close> fails, and the state in which the first client has
  been accepted under it and the fallback loop of lines 190 to 193 is about to draw.
\<close>

definition no_clock :: "int \<Rightarrow> tm option" where
  "no_clock x = None"

definition ex_rand :: state where
  "ex_rand =
     \<lparr>pc = P_rand, fd = 0, sd = 3, client = 4, fd_open = False, client_connected = True,
      msg = replicate 512 (CHR 0x00), filename = [], bytes_read = 0, random = 0,
      t = 1400000000, errno = 0, fds = [3 \<mapsto> Listener, 4 \<mapsto> Conn], fs = Map.empty,
      now = 1400000000,
      trace = [Accept 3 4, Syslog LOG_INFO ''accepted new print client'' [],
               Syslog LOG_WARNING (''error getting current time'' @ nl) []],
      exit_status = None\<rparr>"

section \<open>Properties\<close>

subsection \<open>Unfolding sets\<close>

lemmas consts_defs = BUFSIZE_def PRINTOUT_PREFIX_def FILENAME_SIZE_def TIMESTAMP_SIZE_def
  EXIT_SUCCESS_def RAND_MAX_def EBADF_def ENOENT_def SIGHUP_def SIGINT_def SIGTERM_def
  SIGTSTP_def SIGTTIN_def SIGTTOU_def S_IRUSR_S_IWUSR_def signals_def signals_ignore_def nl_def open_flags_def
lemmas fmt_defs = digit_def string_of_int_def pad2_def format_tm_def strftime_def snprintf_def string_of_nat.simps
lemmas gmtime_defs = gmtime_def tm_of_days_def tm_of_doe_def tm_of_yoe_def tm_of_doy_def tm_of_mp_def
lemmas sys_defs = emit_def sys_close_def open_file_def pwrite_def contents_def sys_exit_def close_logged_def sig_handler_def
lemmas stmt_defs = do_accept_def do_connected_def do_localtime_def do_rand_def do_open_def do_set_fd_open_def
  do_read_def do_write_def do_done_def do_close_fd_def do_close_client_def do_clear_fd_open_def do_clear_connected_def

lemmas pcs_defs = file_pcs_def fd_open_pcs_def conn_pcs_def connected_pcs_def

lemma run_append:
  "run lt (xs @ ys) s = (case run lt xs s of None \<Rightarrow> None | Some s' \<Rightarrow> run lt ys s')"
  by (induction xs arbitrary: s) (auto split: option.splits)

lemma pwrite_nil: "off \<le> length old \<Longrightarrow> pwrite old off [] = old"
  by (simp add: pwrite_def)

lemma pwrite_0: "pwrite old 0 bs = bs @ drop (length bs) old"
  by (simp add: pwrite_def)

lemma pwrite_append: "pwrite (pwrite old off a) (off + length a) b = pwrite old off (a @ b)"
  by (auto simp add: pwrite_def min_def add.commute add.left_commute)

lemma length_pwrite: "off + length a \<le> length (pwrite old off a)"
  by (simp add: pwrite_def min_def)

lemma length_pwrite_take: "k \<le> length bs \<Longrightarrow> off + k \<le> length (pwrite old off (take k bs))"
  using length_pwrite [of off "take k bs" old] by simp

lemma inv_init: "inv (init t0 sd0 files)"
  by (simp add: inv_def init_def pcs_defs)

lemma close_logged_fields:
  "pc (close_logged w d s) = pc s" "fd (close_logged w d s) = fd s" "sd (close_logged w d s) = sd s"
  "client (close_logged w d s) = client s" "fd_open (close_logged w d s) = fd_open s"
  "client_connected (close_logged w d s) = client_connected s" "fs (close_logged w d s) = fs s"
  "t (close_logged w d s) = t s" "filename (close_logged w d s) = filename s"
  "fds (close_logged w d s) = (fds s)(d := None)"
  by (auto simp: close_logged_def sys_close_def emit_def split: option.splits)

lemma sig_handler_fields:
  "pc (sig_handler n s) = P_exited" "fds (sig_handler n s) = Map.empty"
  "fs (sig_handler n s) = fs s" "exit_status (sig_handler n s) = Some 0"
  by (simp_all add: sig_handler_def sys_exit_def emit_def close_logged_fields Let_def EXIT_SUCCESS_def)

lemma inv_sig_handler: "inv (sig_handler n s)"
  by (simp add: inv_def sig_handler_fields pcs_defs)

lemma inv_accept: "inv s \<Longrightarrow> pc s = P_accept \<Longrightarrow> do_accept ev s = Some s' \<Longrightarrow> inv s'"
  apply (cases ev; clarsimp simp: do_accept_def emit_def split: if_splits)
  apply (auto simp: inv_def pcs_defs split: if_splits)
  done

lemma inv_connected: "inv s \<Longrightarrow> pc s = P_connected \<Longrightarrow> do_connected ev s = Some s' \<Longrightarrow> inv s'"
  apply (cases ev; clarsimp simp: do_connected_def emit_def split: if_splits)
  apply (auto simp: inv_def pcs_defs split: if_splits)
  done

lemma inv_localtime: "inv s \<Longrightarrow> pc s = P_localtime \<Longrightarrow> do_localtime lt ev s = Some s' \<Longrightarrow> inv s'"
  apply (cases ev; clarsimp simp: do_localtime_def emit_def split: if_splits option.splits)
  apply (auto simp: inv_def pcs_defs split: if_splits)
  done

lemma inv_rand: "inv s \<Longrightarrow> pc s = P_rand \<Longrightarrow> do_rand ev s = Some s' \<Longrightarrow> inv s'"
  apply (cases ev; clarsimp simp: do_rand_def emit_def Let_def split: if_splits option.splits)
  apply (auto simp: inv_def pcs_defs split: if_splits)
  done

lemma inv_open: "inv s \<Longrightarrow> pc s = P_open \<Longrightarrow> do_open ev s = Some s' \<Longrightarrow> inv s'"
  apply (cases ev; clarsimp simp: do_open_def Let_def emit_def open_file_def open_flags_def split: if_splits option.splits)
  apply (auto simp: inv_def pcs_defs split: if_splits)
  done

lemma inv_set_fd_open: "inv s \<Longrightarrow> pc s = P_set_fd_open \<Longrightarrow> do_set_fd_open ev s = Some s' \<Longrightarrow> inv s'"
  apply (cases ev; clarsimp simp: do_set_fd_open_def )
  apply (auto simp: inv_def pcs_defs split: if_splits)
  done

lemma inv_read: "inv s \<Longrightarrow> pc s = P_read \<Longrightarrow> do_read ev s = Some s' \<Longrightarrow> inv s'"
  apply (cases ev; clarsimp simp: do_read_def emit_def split: if_splits)
  apply (auto simp: inv_def pcs_defs split: if_splits)
  done

lemma inv_write: "inv s \<Longrightarrow> pc s = P_write \<Longrightarrow> do_write ev s = Some s' \<Longrightarrow> inv s'"
  apply (cases ev; clarsimp simp: do_write_def Let_def emit_def split: if_splits option.splits handle.splits)
  apply (auto simp: inv_def pcs_defs contents_def length_pwrite_take split: if_splits)
  done

lemma inv_done: "inv s \<Longrightarrow> pc s = P_done \<Longrightarrow> do_done ev s = Some s' \<Longrightarrow> inv s'"
  apply (cases ev; clarsimp simp: do_done_def emit_def)
  apply (auto simp: inv_def pcs_defs split: if_splits)
  done

lemma inv_close_fd: "inv s \<Longrightarrow> pc s = P_close_fd \<Longrightarrow> do_close_fd ev s = Some s' \<Longrightarrow> inv s'"
  apply (cases ev; clarsimp simp: do_close_fd_def sys_close_def emit_def split: option.splits)
  apply (auto simp: inv_def pcs_defs split: if_splits)
  done

lemma inv_close_client: "inv s \<Longrightarrow> pc s = P_close_client \<Longrightarrow> do_close_client ev s = Some s' \<Longrightarrow> inv s'"
  apply (cases ev; clarsimp simp: do_close_client_def sys_close_def emit_def split: option.splits)
  apply (auto simp: inv_def pcs_defs split: if_splits)
  done

lemma inv_clear_fd_open: "inv s \<Longrightarrow> pc s = P_clear_fd_open \<Longrightarrow> do_clear_fd_open ev s = Some s' \<Longrightarrow> inv s'"
  apply (cases ev; clarsimp simp: do_clear_fd_open_def )
  apply (auto simp: inv_def pcs_defs split: if_splits)
  done

lemma inv_clear_connected: "inv s \<Longrightarrow> pc s = P_clear_connected \<Longrightarrow> do_clear_connected ev s = Some s' \<Longrightarrow> inv s'"
  apply (cases ev; clarsimp simp: do_clear_connected_def )
  apply (auto simp: inv_def pcs_defs split: if_splits)
  done

lemma inv_statement: "inv s \<Longrightarrow> statement lt ev s = Some s' \<Longrightarrow> inv s'"
  unfolding statement_def
  by (cases "pc s"; simp; blast intro: inv_accept inv_connected inv_localtime inv_rand inv_open inv_set_fd_open
     inv_read inv_write inv_done inv_close_fd inv_close_client inv_clear_fd_open inv_clear_connected)

lemma inv_tick: "inv s \<Longrightarrow> inv (s\<lparr>now := k\<rparr>)"
  by (simp add: inv_def)

lemma inv_step: "inv s \<Longrightarrow> step lt ev s = Some s' \<Longrightarrow> inv s'"
  by (cases ev; auto simp: step_def inv_sig_handler inv_tick split: if_splits intro: inv_statement)

lemma inv_run: "inv s \<Longrightarrow> run lt evs s = Some s' \<Longrightarrow> inv s'"
  by (induction evs arbitrary: s; auto split: option.splits dest: inv_step)

lemma stored_Cons: "stored (cw # cws) = stored_of cw @ stored cws"
  by (simp add: stored_def)

lemma stored_Nil: "stored [] = []"
  by (simp add: stored_def)

lemma copy_events_Cons: "copy_events (cw # cws) = ReadData (fst cw) # snd cw # copy_events cws"
  by (simp add: copy_events_def)

lemma copy_calls_Cons:
  "copy_calls c d (cw # cws) =
     Read c BUFSIZE (int (length (fst cw))) # Write d (fst cw) (write_result (snd cw)) # copy_calls c d cws"
  by (simp add: copy_calls_def)

lemma step_at:
  "pc s = P_accept \<Longrightarrow> step lt (AcceptOk d) s = do_accept (AcceptOk d) s"
  "pc s = P_accept \<Longrightarrow> step lt (AcceptFail e) s = do_accept (AcceptFail e) s"
  "pc s = P_connected \<Longrightarrow> step lt Step s = do_connected Step s"
  "pc s = P_localtime \<Longrightarrow> step lt Step s = do_localtime lt Step s"
  "pc s = P_rand \<Longrightarrow> step lt (RandRet r) s = do_rand (RandRet r) s"
  "pc s = P_open \<Longrightarrow> step lt (OpenOk d) s = do_open (OpenOk d) s"
  "pc s = P_open \<Longrightarrow> step lt (OpenFail e) s = do_open (OpenFail e) s"
  "pc s = P_set_fd_open \<Longrightarrow> step lt Step s = do_set_fd_open Step s"
  "pc s = P_read \<Longrightarrow> step lt (ReadData bs) s = do_read (ReadData bs) s"
  "pc s = P_read \<Longrightarrow> step lt ReadEOF s = do_read ReadEOF s"
  "pc s = P_read \<Longrightarrow> step lt (ReadErr e) s = do_read (ReadErr e) s"
  "pc s = P_write \<Longrightarrow> step lt (WriteRet k) s = do_write (WriteRet k) s"
  "pc s = P_write \<Longrightarrow> step lt (WriteErr e) s = do_write (WriteErr e) s"
  "pc s = P_done \<Longrightarrow> step lt Step s = do_done Step s"
  "pc s = P_close_fd \<Longrightarrow> step lt Step s = do_close_fd Step s"
  "pc s = P_close_client \<Longrightarrow> step lt Step s = do_close_client Step s"
  "pc s = P_clear_fd_open \<Longrightarrow> step lt Step s = do_clear_fd_open Step s"
  "pc s = P_clear_connected \<Longrightarrow> step lt Step s = do_clear_connected Step s"
  by (simp_all add: step_def statement_def)

text \<open>One turn of the copy loop.\<close>

lemma read_data:
  assumes "pc s = P_read" "fds s (client s) = Some Conn" "0 < length bs" "length bs \<le> BUFSIZE"
  shows "step lt (ReadData bs) s =
           Some (s\<lparr>msg := bs @ drop (length bs) (msg s), bytes_read := int (length bs), pc := P_write,
                   trace := trace s @ [Read (client s) BUFSIZE (int (length bs))]\<rparr>)"
  using assms by (simp add: step_at do_read_def emit_def)

lemma write_ret:
  assumes "pc s = P_write" "fds s (fd s) = Some (File name off)" "k \<le> length (take (nat (bytes_read s)) (msg s))"
  shows "step lt (WriteRet k) s =
           Some (s\<lparr>fs := (fs s)(name \<mapsto> pwrite (contents (fs s) name) off (take k (take (nat (bytes_read s)) (msg s)))),
                   fds := (fds s)(fd s \<mapsto> File name (off + k)), pc := P_read,
                   trace := trace s @ [Write (fd s) (take (nat (bytes_read s)) (msg s)) (int k)]\<rparr>)"
  using assms by (simp add: step_at do_write_def emit_def Let_def)

lemma write_err:
  assumes "pc s = P_write"
  shows "step lt (WriteErr e) s =
           Some (s\<lparr>errno := e, pc := P_read,
                   trace := trace s @ [Write (fd s) (take (nat (bytes_read s)) (msg s)) (- 1)]\<rparr>)"
  using assms by (simp add: step_at do_write_def emit_def Let_def)


lemma copy_turn:
  assumes "chunk_ok cw" "pc s = P_read" "fds s (client s) = Some Conn"
    and "fds s (fd s) = Some (File name off)" "fs s name = Some old" "off \<le> length old"
  shows "\<exists>s'. run lt [ReadData (fst cw), snd cw] s = Some s' \<and> pc s' = P_read \<and> same_vars s s' \<and>
           trace s' = trace s @ [Read (client s) BUFSIZE (int (length (fst cw))),
                                 Write (fd s) (fst cw) (write_result (snd cw))] \<and>
           fds s' = (fds s)(fd s \<mapsto> File name (off + length (stored_of cw))) \<and>
           fs s' = (fs s)(name \<mapsto> pwrite old off (stored_of cw))"
proof (cases "snd cw")
  case (WriteRet k)
  with assms show ?thesis
    by (simp add: chunk_ok_def read_data write_ret [of _ name off] same_vars_def write_result_def
        stored_of_def contents_def)
next
  case (WriteErr e)
  with assms show ?thesis
    by (simp add: chunk_ok_def read_data write_err same_vars_def write_result_def
        stored_of_def pwrite_nil map_upd_triv)
qed (use assms in \<open>simp_all add: chunk_ok_def\<close>)

lemma copy_loop:
  assumes "list_all chunk_ok cws" "pc s = P_read" "fds s (client s) = Some Conn"
    and "fds s (fd s) = Some (File name off)" "fs s name = Some old" "off \<le> length old"
  shows "\<exists>s'. run lt (copy_events cws) s = Some s' \<and> pc s' = P_read \<and> same_vars s s' \<and>
           trace s' = trace s @ copy_calls (client s) (fd s) cws \<and>
           fds s' = (fds s)(fd s \<mapsto> File name (off + length (stored cws))) \<and>
           fs s' = (fs s)(name \<mapsto> pwrite old off (stored cws))"
  using assms
proof (induction cws arbitrary: s off old)
  case Nil
  then show ?case
    by (simp add: copy_events_def copy_calls_def stored_def same_vars_def pwrite_nil map_upd_triv fun_upd_idem)
next
  case (Cons cw cws)
  from Cons.prems have ok: "chunk_ok cw" and oks: "list_all chunk_ok cws"
    by simp_all
  from copy_turn [OF ok Cons.prems(2-6), of lt]
  obtain s1 where
    r1: "run lt [ReadData (fst cw), snd cw] s = Some s1" and p1: "pc s1 = P_read" and
    v1: "same_vars s s1" and
    t1: "trace s1 = trace s @ [Read (client s) BUFSIZE (int (length (fst cw))),
                                Write (fd s) (fst cw) (write_result (snd cw))]" and
    d1: "fds s1 = (fds s)(fd s \<mapsto> File name (off + length (stored_of cw)))" and
    f1: "fs s1 = (fs s)(name \<mapsto> pwrite old off (stored_of cw))"
    by blast
  have ne: "fd s \<noteq> client s"
    using Cons.prems(3,4) by auto
  have c1: "fds s1 (client s1) = Some Conn"
    using v1 d1 ne Cons.prems(3) by (simp add: same_vars_def)
  have h1: "fds s1 (fd s1) = Some (File name (off + length (stored_of cw)))"
    using v1 d1 by (simp add: same_vars_def)
  have o1: "fs s1 name = Some (pwrite old off (stored_of cw))"
    using f1 by simp
  from Cons.IH [OF oks p1 c1 h1 o1 length_pwrite]
  obtain s2 where
    r2: "run lt (copy_events cws) s1 = Some s2" and p2: "pc s2 = P_read" and
    v2: "same_vars s1 s2" and
    t2: "trace s2 = trace s1 @ copy_calls (client s1) (fd s1) cws" and
    d2: "fds s2 = (fds s1)(fd s1 \<mapsto> File name (off + length (stored_of cw) + length (stored cws)))" and
    f2: "fs s2 = (fs s1)(name \<mapsto> pwrite (pwrite old off (stored_of cw)) (off + length (stored_of cw)) (stored cws))"
    by blast
  have "run lt (copy_events (cw # cws)) s = Some s2"
    using r1 r2 run_append [of lt "[ReadData (fst cw), snd cw]" "copy_events cws" s]
    by (simp add: copy_events_Cons)
  moreover have "same_vars s s2"
    using v1 v2 by (simp add: same_vars_def)
  moreover have "trace s2 = trace s @ copy_calls (client s) (fd s) (cw # cws)"
    using t1 t2 v1 by (simp add: copy_calls_Cons same_vars_def)
  moreover have "fds s2 = (fds s)(fd s \<mapsto> File name (off + length (stored (cw # cws))))"
    using d1 d2 v1 by (simp add: same_vars_def stored_Cons add.assoc)
  moreover have "fs s2 = (fs s)(name \<mapsto> pwrite old off (stored (cw # cws)))"
    using f1 f2 by (simp add: stored_Cons pwrite_append)
  ultimately show ?case
    using p2 by blast
qed

subsection \<open>The signal handler\<close>

lemma close_logged_trace: "trace (close_logged w d s) = trace s @ close_calls w d (fds s)"
  by (simp add: close_logged_def sys_close_def emit_def close_calls_def split: option.splits)

text \<open>
  Claim C4. Whatever state a termination signal finds, \<^verbatim>\<open>sig_handler\<close> makes these calls,
  in this order, and nothing else: it logs the signal number at notice level, calls
  \<^verbatim>\<open>sync\<close>, closes \<^verbatim>\<open>client\<close> if \<^verbatim>\<open>client_connected\<close> is set, closes \<^verbatim>\<open>fd\<close> if
  \<^verbatim>\<open>fd_open\<close> is set, closes \<^verbatim>\<open>sd\<close> in every case, and calls \<^verbatim>\<open>exit(0)\<close>. A close that
  fails adds one warning to the log and changes nothing else: the exit status is 0 in
  every case. The files are as they were.
\<close>

theorem sig_handler_closes_and_exits:
  "trace (sig_handler signum s) =
     trace s
       @ [Syslog LOG_NOTICE (''received signal %d, will close all open file descriptors and exit'' @ nl)
            [A_int signum],
          Sync]
       @ (if client_connected s
          then close_calls (''signal handler: error closing client socket: %s'' @ nl) (client s) (fds s)
          else [])
       @ (if fd_open s
          then close_calls (''signal handler: error closing fd: %s'' @ nl) (fd s)
                 (closed_if (client_connected s) (client s) (fds s))
          else [])
       @ close_calls (''signal handler: error closing socket: %s'' @ nl) (sd s)
           (closed_if (fd_open s) (fd s) (closed_if (client_connected s) (client s) (fds s)))
       @ [Exit 0]
   \<and> exit_status (sig_handler signum s) = Some 0
   \<and> pc (sig_handler signum s) = P_exited
   \<and> fs (sig_handler signum s) = fs s"
  by (simp add: sig_handler_def Let_def emit_def sys_exit_def close_logged_fields close_logged_trace
      closed_if_def EXIT_SUCCESS_def)

text \<open>
  The handler in the middle of a transfer, both flags set and the three descriptors open:
  three successful closes, no warning.
\<close>

theorem sig_handler_closes_and_exits_witness:
  "trace (sig_handler 15
     ((init 0 3 Map.empty)\<lparr>pc := P_read, client := 4, fd := 5, fd_open := True, client_connected := True,
        fds := [3 \<mapsto> Listener, 4 \<mapsto> Conn, 5 \<mapsto> File ''/usb/tcp_fileprinter/01.01.1970-00:00:00'' 0]\<rparr>)) =
     [Syslog LOG_NOTICE (''received signal %d, will close all open file descriptors and exit'' @ nl) [A_int 15],
      Sync, Close 4 0, Close 5 0, Close 3 0, Exit 0]
   \<and> exit_status (sig_handler 15
     ((init 0 3 Map.empty)\<lparr>pc := P_read, client := 4, fd := 5, fd_open := True, client_connected := True,
        fds := [3 \<mapsto> Listener, 4 \<mapsto> Conn, 5 \<mapsto> File ''/usb/tcp_fileprinter/01.01.1970-00:00:00'' 0]\<rparr>)) = Some 0"
  using sig_handler_closes_and_exits [of 15
     "(init 0 3 Map.empty)\<lparr>pc := P_read, client := 4, fd := 5, fd_open := True, client_connected := True,
        fds := [3 \<mapsto> Listener, 4 \<mapsto> Conn, 5 \<mapsto> File ''/usb/tcp_fileprinter/01.01.1970-00:00:00'' 0]\<rparr>"]
  by (simp add: init_def close_calls_def closed_if_def)

subsection \<open>One print job\<close>

lemma open_file_create: "open_file files name open_flags = Some (files(name \<mapsto> contents files name))"
  by (simp add: open_file_def open_flags_def contents_def map_upd_triv split: option.splits)

lemma job_open:
  assumes "pc s = P_open" "0 \<le> d" "fds s d = None"
  shows "run lt [OpenOk d, Step] s =
           Some (s\<lparr>fd := d, fd_open := True, bytes_read := 0,
                   fds := (fds s)(d \<mapsto> File (filename s) 0),
                   fs := (fs s)(filename s \<mapsto> contents (fs s) (filename s)),
                   pc := P_read,
                   trace := trace s @ [Syslog LOG_INFO ''start printing to %s'' [A_str (filename s)],
                                      Open (filename s) open_flags S_IRUSR_S_IWUSR d]\<rparr>)"
  using assms
  by (simp add: step_at do_open_def do_set_fd_open_def emit_def Let_def open_file_create)

lemma job_close:
  assumes "pc s = P_read" "fds s (client s) = Some Conn" "fds s (fd s) = Some h" "fd s \<noteq> client s"
    and "ends_read fin"
  shows "\<exists>s'. run lt [fin, Step, Step, Step, Step, Step] s = Some s' \<and> pc s' = P_accept \<and>
           \<not> fd_open s' \<and> \<not> client_connected s' \<and> fd s' = fd s \<and> client s' = client s \<and>
           sd s' = sd s \<and> t s' = t s \<and> filename s' = filename s \<and> fs s' = fs s \<and>
           fds s' = (fds s)(fd s := None, client s := None) \<and>
           trace s' = trace s @ [Read (client s) BUFSIZE (read_result fin),
                                 Syslog LOG_INFO ''done printing to %s'' [A_str (filename s)],
                                 Close (fd s) 0, Close (client s) 0]"
  using assms
  by (cases fin; simp add: ends_read_def read_result_def step_at do_read_def do_done_def do_close_fd_def
       do_close_client_def do_clear_fd_open_def do_clear_connected_def sys_close_def emit_def)

lemmas run_defs = step_def statement_def stmt_defs emit_def sys_close_def open_file_def pwrite_def
  contents_def fmt_defs gmtime_defs consts_defs init_def Let_def

lemma ex_open_reached: "run gmtime [AcceptOk 4, Step, Step] (init 1400000000 3 Map.empty) = Some ex_open"
  by (simp add: run_defs ex_open_def ex_name_def)

lemma reach_inv: "run lt evs (init t0 sd0 files) = Some s \<Longrightarrow> inv s"
  using inv_run [OF inv_init] by blast

lemma written_append: "written (xs @ ys) = written xs @ written ys"
  by (induction xs rule: written.induct) simp_all

lemma written_copy_calls: "list_all chunk_ok cws \<Longrightarrow> written (copy_calls c d cws) = stored cws"
  by (induction cws)
     (auto simp: copy_calls_Cons stored_Cons copy_calls_def stored_def stored_of_def write_result_def chunk_ok_def
        split: event.splits)

lemma written_job_calls: "list_all chunk_ok cws \<Longrightarrow> written (job_calls name c d cws fin) = stored cws"
  by (simp add: job_calls_def written_append written_copy_calls)

lemma job:
  assumes "inv s" "pc s = P_open" "0 \<le> d" "fds s d = None" "list_all chunk_ok cws" "ends_read fin"
  shows "\<exists>s'. run lt (job_events d cws fin) s = Some s' \<and> pc s' = P_accept \<and>
           \<not> fd_open s' \<and> \<not> client_connected s' \<and> fd s' = d \<and> client s' = client s \<and>
           sd s' = sd s \<and> t s' = t s \<and> filename s' = filename s \<and>
           fds s' = (fds s)(client s := None) \<and>
           fs s' = (fs s)(filename s \<mapsto>
                     stored cws @ drop (length (stored cws)) (contents (fs s) (filename s))) \<and>
           trace s' = trace s @ job_calls (filename s) (client s) d cws fin"
proof -
  let ?name = "filename s"
  let ?old = "contents (fs s) ?name"
  let ?s1 = "s\<lparr>fd := d, fd_open := True, bytes_read := 0,
               fds := (fds s)(d \<mapsto> File ?name 0),
               fs := (fs s)(?name \<mapsto> ?old),
               pc := P_read,
               trace := trace s @ [Syslog LOG_INFO ''start printing to %s'' [A_str ?name],
                                  Open ?name open_flags S_IRUSR_S_IWUSR d]\<rparr>"
  have conn: "fds s (client s) = Some Conn"
    using assms(1,2) by (simp add: inv_def pcs_defs)
  then have ne: "d \<noteq> client s"
    using assms(4) by auto
  have r1: "run lt [OpenOk d, Step] s = Some ?s1"
    using job_open [OF assms(2-4)] .
  have "\<exists>s2. run lt (copy_events cws) ?s1 = Some s2 \<and> pc s2 = P_read \<and> same_vars ?s1 s2 \<and>
           trace s2 = trace ?s1 @ copy_calls (client ?s1) (fd ?s1) cws \<and>
           fds s2 = (fds ?s1)(fd ?s1 \<mapsto> File ?name (0 + length (stored cws))) \<and>
           fs s2 = (fs ?s1)(?name \<mapsto> pwrite ?old 0 (stored cws))"
    using conn ne by (intro copy_loop [OF assms(5)]) simp_all
  then obtain s2 where
    r2: "run lt (copy_events cws) ?s1 = Some s2" and p2: "pc s2 = P_read" and
    v2: "same_vars ?s1 s2" and
    t2: "trace s2 = trace ?s1 @ copy_calls (client s) d cws" and
    d2: "fds s2 = (fds s)(d \<mapsto> File ?name (length (stored cws)))" and
    f2: "fs s2 = (fs s)(?name \<mapsto> pwrite ?old 0 (stored cws))"
    by auto
  have c2: "fds s2 (client s2) = Some Conn"
    using v2 d2 conn ne by (simp add: same_vars_def)
  have h2: "fds s2 (fd s2) = Some (File ?name (length (stored cws)))"
    using v2 d2 by (simp add: same_vars_def)
  have n2: "fd s2 \<noteq> client s2"
    using v2 ne by (simp add: same_vars_def)
  from job_close [OF p2 c2 h2 n2 assms(6), of lt]
  obtain s3 where
    r3: "run lt [fin, Step, Step, Step, Step, Step] s2 = Some s3" and p3: "pc s3 = P_accept" and
    g3: "\<not> fd_open s3" "\<not> client_connected s3" "fd s3 = fd s2" "client s3 = client s2"
       "sd s3 = sd s2" "t s3 = t s2" "filename s3 = filename s2" "fs s3 = fs s2" and
    d3: "fds s3 = (fds s2)(fd s2 := None, client s2 := None)" and
    t3: "trace s3 = trace s2 @ [Read (client s2) BUFSIZE (read_result fin),
                                Syslog LOG_INFO ''done printing to %s'' [A_str (filename s2)],
                                Close (fd s2) 0, Close (client s2) 0]"
    by blast
  have "run lt (job_events d cws fin) s = Some s3"
    unfolding job_events_def by (simp only: run_append r1 r2 r3 option.case)
  moreover have "fds s3 = (fds s)(client s := None)"
    using d3 d2 v2 assms(4) by (auto simp: same_vars_def)
  moreover have "fs s3 = (fs s)(?name \<mapsto> stored cws @ drop (length (stored cws)) ?old)"
    using g3 f2 by (simp add: pwrite_0)
  moreover have "trace s3 = trace s @ job_calls ?name (client s) d cws fin"
    using t3 t2 v2 by (simp add: job_calls_def same_vars_def)
  ultimately show ?thesis
    using p3 g3 v2 by (simp add: same_vars_def)
qed

lemma is_fileE:
  assumes "is_file h"
  obtains name off where "h = Some (File name off)"
  using assms by (cases h rule: is_file.cases) simp_all

lemma calls_since_append: "trace s' = trace s @ cs \<Longrightarrow> calls_since s s' = cs"
  by (simp add: calls_since_def)

lemma stored_full_writes: "stored (full_writes chunks) = concat chunks"
  by (induction chunks) (simp_all add: stored_def full_writes_def stored_of_def)

lemma chunk_ok_full_writes: "list_all sized chunks \<Longrightarrow> list_all chunk_ok (full_writes chunks)"
  by (induction chunks) (simp_all add: full_writes_def chunk_ok_def sized_def)

lemma ex_open_facts:
  "pc ex_open = P_open" "fds ex_open 5 = None" "filename ex_open = ex_name"
  "contents (fs ex_open) ex_name = []" "fs ex_open ex_name = None" "client ex_open = 4"
  by (simp_all add: ex_open_def contents_def)

lemma ex_open_old_reached:
  "run gmtime [AcceptOk 4, Step, Step] (init 1400000000 3 [ex_name \<mapsto> ''OLD JOB DATA'']) = Some ex_open_old"
  by (simp add: run_defs ex_open_old_def ex_open_def ex_name_def)

lemma ex_read_reached:
  "run gmtime [AcceptOk 4, Step, Step, OpenOk 5, Step] (init 1400000000 3 Map.empty) = Some ex_read"
  by (simp add: run_defs ex_read_def ex_open_def ex_name_def)

lemma ex_open_old_facts:
  "pc ex_open_old = P_open" "fds ex_open_old 5 = None" "filename ex_open_old = ex_name"
  "fs ex_open_old ex_name = Some ''OLD JOB DATA''" "client ex_open_old = 4"
  by (simp_all add: ex_open_old_def ex_open_def)

lemma ex_read_facts:
  "pc ex_read = P_read" "client ex_read = 4" "fd ex_read = 5"
  by (simp_all add: ex_read_def ex_open_def)

subsection \<open>The copy loop\<close>

text \<open>
  Claim C6. In every reachable state in which the loop is about to read: each read asks
  for \<open>BUFSIZE = 512\<close> bytes; for every sequence of reads that deliver data (each
  between 1 and 512 bytes), whatever the writes answer, the loop is again about to read
  after the last of them, and the read \<open>fin\<close> that returns 0 or -1 takes it to line 206.
  The calls made are, for each read of \<open>n\<close> bytes, that read followed by exactly one
  write of those \<open>n\<close> bytes (\<open>copy_calls\<close>), whether the write reported all of
  them, fewer, or -1: nothing is written again. After them comes the ending read. The
  ending read changes neither the files nor the descriptors nor the flags, be it the end
  of the stream or an error: the two differ in the value returned only.
\<close>

theorem copy_loop_reads_and_writes:
  assumes "run lt evs (init t0 sd0 files) = Some s" and "pc s = P_read"
    and "list_all chunk_ok cws" and "ends_read fin"
  shows "BUFSIZE = 512 \<and>
         (\<exists>s1 s'. run lt (copy_events cws) s = Some s1 \<and> pc s1 = P_read \<and>
            run lt (copy_events cws @ [fin]) s = Some s' \<and> pc s' = P_done \<and>
            calls_since s s' =
              copy_calls (client s) (fd s) cws @ [Read (client s) BUFSIZE (read_result fin)] \<and>
            fs s' = fs s1 \<and> fds s' = fds s1 \<and> fd_open s' = fd_open s1 \<and>
            client_connected s' = client_connected s1)"
proof -
  have i: "inv s"
    using assms(1) by (rule reach_inv)
  have conn: "fds s (client s) = Some Conn"
    using i assms(2) by (simp add: inv_def pcs_defs)
  have "is_file (fds s (fd s))" and nm: "file_name (fds s (fd s)) = filename s"
    and ex: "fs s (filename s) \<noteq> None"
    and le: "file_off (fds s (fd s)) \<le> length (contents (fs s) (filename s))"
    using i assms(2) by (simp_all add: inv_def pcs_defs)
  then obtain name off where h: "fds s (fd s) = Some (File name off)"
    by (auto elim: is_fileE)
  from ex obtain old where o: "fs s (filename s) = Some old"
    by auto
  have name: "name = filename s" and off: "off \<le> length old"
    using h nm le o by (simp_all add: contents_def)
  from copy_loop [OF assms(3,2) conn h o [folded name] off, of lt]
  obtain s1 where
    r1: "run lt (copy_events cws) s = Some s1" and p1: "pc s1 = P_read" and
    v1: "same_vars s s1" and
    t1: "trace s1 = trace s @ copy_calls (client s) (fd s) cws" and
    d1: "fds s1 = (fds s)(fd s \<mapsto> File name (off + length (stored cws)))"
    by blast
  have ne: "fd s \<noteq> client s"
    using conn h by auto
  have c1: "fds s1 (client s1) = Some Conn"
    using v1 d1 conn ne by (simp add: same_vars_def)
  have "\<exists>s'. step lt fin s1 = Some s' \<and> pc s' = P_done \<and>
          trace s' = trace s1 @ [Read (client s1) BUFSIZE (read_result fin)] \<and>
          fs s' = fs s1 \<and> fds s' = fds s1 \<and> fd_open s' = fd_open s1 \<and>
          client_connected s' = client_connected s1"
    using assms(4) p1 c1
    by (cases fin) (simp_all add: ends_read_def read_result_def step_at do_read_def emit_def)
  then obtain s' where
    r2: "step lt fin s1 = Some s'" and p2: "pc s' = P_done" and
    t2: "trace s' = trace s1 @ [Read (client s1) BUFSIZE (read_result fin)]" and
    g2: "fs s' = fs s1" "fds s' = fds s1" "fd_open s' = fd_open s1"
        "client_connected s' = client_connected s1"
    by blast
  have "run lt (copy_events cws @ [fin]) s = Some s'"
    using r1 r2 by (simp add: run_append)
  moreover have "calls_since s s' =
      copy_calls (client s) (fd s) cws @ [Read (client s) BUFSIZE (read_result fin)]"
    using t1 t2 v1 by (simp add: calls_since_def same_vars_def)
  ultimately show ?thesis
    using r1 p1 p2 g2 by (simp add: BUFSIZE_def)
qed

text \<open>
  Three reads of 3, 2 and 1 bytes whose writes report 3, then a short 1, then fail with
  \<^verbatim>\<open>ENOSPC\<close>; the fourth read fails with \<^verbatim>\<open>ECONNRESET\<close>.
\<close>

theorem copy_loop_reads_and_writes_witness:
  "\<exists>s'. run gmtime (copy_events [(''HEL'', WriteRet 3), (''LO'', WriteRet 1), (''O'', WriteErr 28)] @ [ReadErr 104])
      ex_read = Some s' \<and> pc s' = P_done \<and>
      calls_since ex_read s' =
        [Read 4 512 3, Write 5 ''HEL'' 3, Read 4 512 2, Write 5 ''LO'' 1, Read 4 512 1, Write 5 ''O'' (- 1),
         Read 4 512 (- 1)]"
proof -
  have "list_all chunk_ok [(''HEL'', WriteRet 3), (''LO'', WriteRet 1), (''O'', WriteErr 28)]"
    "ends_read (ReadErr 104)"
    by (simp_all add: chunk_ok_def BUFSIZE_def ends_read_def)
  from copy_loop_reads_and_writes [OF ex_read_reached ex_read_facts(1) this]
  show ?thesis
    by (auto simp: ex_read_facts copy_calls_def write_result_def read_result_def)
qed

subsection \<open>What a job leaves in its file\<close>

text \<open>
  Claim C1, as stated, fails: the source drops the result of \<^verbatim>\<open>write\<close>, so a write
  that stores less than it was handed loses bytes. The client sends \<^verbatim>\<open>HELLO\<close> and
  closes; the open has succeeded; the write stores two bytes; the file holds \<^verbatim>\<open>HE\<close>.
\<close>

theorem short_write_loses_bytes:
  "file_after gmtime
     [AcceptOk 4, Step, Step, OpenOk 5, Step, ReadData ''HELLO'', WriteRet 2, ReadEOF,
      Step, Step, Step, Step, Step]
     (init 1400000000 3 Map.empty) ex_name = Some ''HE''
   \<and> written_after gmtime
     [AcceptOk 4, Step, Step, OpenOk 5, Step, ReadData ''HELLO'', WriteRet 2, ReadEOF,
      Step, Step, Step, Step, Step]
     (init 1400000000 3 Map.empty) = Some ''HE''"
  by (simp add: file_after_def written_after_def calls_since_def run_defs ex_name_def)

text \<open>
  Claim C1, amended. In every reachable state in which a file name has been chosen: when
  the open succeeds, the client sends the chunks \<open>chunks\<close> and closes cleanly, and
  every write stores all it was handed, then the bytes written are the bytes sent, in
  order, and the file holds them from offset 0 on, followed by whatever an older file of
  that name held beyond their length. When the older file was no longer than the stream
  (or there was none), the file holds the stream exactly.
\<close>

theorem complete_writes_store_the_stream:
  assumes "run lt evs (init t0 sd0 files) = Some s" and "pc s = P_open"
    and "0 \<le> d" and "fds s d = None" and "list_all sized chunks"
  shows "\<exists>s'. run lt (job_events d (full_writes chunks) ReadEOF) s = Some s' \<and>
           written (calls_since s s') = concat chunks \<and>
           contents (fs s') (filename s) =
             concat chunks @ drop (length (concat chunks)) (contents (fs s) (filename s)) \<and>
           (length (contents (fs s) (filename s)) \<le> length (concat chunks) \<longrightarrow>
              fs s' (filename s) = Some (concat chunks))"
proof -
  have ok: "list_all chunk_ok (full_writes chunks)"
    using assms(5) by (rule chunk_ok_full_writes)
  from job [OF reach_inv [OF assms(1)] assms(2-4) ok, of ReadEOF lt]
  obtain s' where
    r: "run lt (job_events d (full_writes chunks) ReadEOF) s = Some s'" and
    f: "fs s' = (fs s)(filename s \<mapsto> stored (full_writes chunks)
           @ drop (length (stored (full_writes chunks))) (contents (fs s) (filename s)))" and
    t: "trace s' = trace s @ job_calls (filename s) (client s) d (full_writes chunks) ReadEOF"
    by (auto simp: ends_read_def)
  have "written (calls_since s s') = concat chunks"
    using t ok by (simp add: calls_since_append written_job_calls stored_full_writes)
  then show ?thesis
    using r f by (simp add: stored_full_writes contents_def)
qed

theorem complete_writes_store_the_stream_witness:
  "\<exists>s'. run gmtime (job_events 5 (full_writes [''HEL'', ''LO'']) ReadEOF) ex_open = Some s' \<and>
      written (calls_since ex_open s') = ''HELLO'' \<and> fs s' ex_name = Some ''HELLO''"
proof -
  have "list_all sized [''HEL'', ''LO'']"
    by (simp add: sized_def BUFSIZE_def)
  from complete_writes_store_the_stream [OF ex_open_reached ex_open_facts(1) _ ex_open_facts(2) this]
  show ?thesis
    by (auto simp: ex_open_facts)
qed

text \<open>
  Claim C8, as stated, fails: the open neither truncates nor refuses an existing file,
  and the name is the same for every job of one process (see claim C2). The first client
  sends one byte, the second sends nothing and closes: both jobs open the same file,
  and it holds one byte afterwards.
\<close>

theorem empty_job_on_existing_file:
  "outputs_after gmtime
     [AcceptOk 4, Step, Step, OpenOk 5, Step, ReadData ''A'', WriteRet 1, ReadEOF,
      Step, Step, Step, Step, Step,
      AcceptOk 4, Step, Step, OpenOk 5, Step, ReadEOF,
      Step, Step, Step, Step, Step]
     (init 1400000000 3 Map.empty) = Some [(ex_name, ''A''), (ex_name, ''A'')]"
  by (simp add: outputs_after_def name_and_bytes_def calls_since_def run_defs ex_name_def)

text \<open>
  Claim C8, amended. In every reachable state in which a file name has been chosen: when
  the open succeeds and the first read returns 0, the job writes nothing, and a file of
  the chosen name exists afterwards with the bytes a file of that name had before; when
  there was none, it is empty.
\<close>

theorem empty_job_keeps_or_creates:
  assumes "run lt evs (init t0 sd0 files) = Some s" and "pc s = P_open"
    and "0 \<le> d" and "fds s d = None"
  shows "\<exists>s'. run lt (job_events d [] ReadEOF) s = Some s' \<and>
           fs s' (filename s) = Some (contents (fs s) (filename s)) \<and>
           (fs s (filename s) = None \<longrightarrow> fs s' (filename s) = Some []) \<and>
           written (calls_since s s') = []"
proof -
  from job [OF reach_inv [OF assms(1)] assms(2-4), of "[]" ReadEOF lt]
  obtain s' where
    r: "run lt (job_events d [] ReadEOF) s = Some s'" and
    f: "fs s' = (fs s)(filename s \<mapsto> stored [] @ drop (length (stored [])) (contents (fs s) (filename s)))" and
    t: "trace s' = trace s @ job_calls (filename s) (client s) d [] ReadEOF"
    by (auto simp: ends_read_def)
  have "written (calls_since s s') = []"
    using t by (simp add: calls_since_append written_job_calls stored_Nil)
  then show ?thesis
    using r f by (simp add: stored_Nil contents_def)
qed

theorem empty_job_keeps_or_creates_witness:
  "\<exists>s'. run gmtime (job_events 5 [] ReadEOF) ex_open = Some s' \<and> fs s' ex_name = Some []"
  using empty_job_keeps_or_creates [OF ex_open_reached ex_open_facts(1) _ ex_open_facts(2)]
  by (auto simp: ex_open_facts)

text \<open>
  Claim C9. In every reachable state in which a file name has been chosen and a file of
  that name exists with the bytes \<open>old\<close>: the open is made with the flags
  \<^verbatim>\<open>O_CREAT|O_WRONLY\<close> and no others, it leaves every file as it was, and the new
  descriptor stands at offset 0. When the job is over, whatever the writes answered, the
  file holds the bytes the job stored followed by the bytes of \<open>old\<close> beyond their
  length.
\<close>

theorem open_keeps_old_bytes:
  assumes "run lt evs (init t0 sd0 files) = Some s" and "pc s = P_open"
    and "0 \<le> d" and "fds s d = None" and "list_all chunk_ok cws" and "ends_read fin"
    and "fs s (filename s) = Some old"
  shows "\<exists>s1 s'. step lt (OpenOk d) s = Some s1 \<and>
           trace s1 = trace s @ [Syslog LOG_INFO ''start printing to %s'' [A_str (filename s)],
                                 Open (filename s) [O_CREAT, O_WRONLY] S_IRUSR_S_IWUSR d] \<and>
           fs s1 = fs s \<and> fds s1 d = Some (File (filename s) 0) \<and>
           run lt (job_events d cws fin) s = Some s' \<and>
           fs s' (filename s) = Some (stored cws @ drop (length (stored cws)) old)"
proof -
  from job [OF reach_inv [OF assms(1)] assms(2-6), of lt]
  obtain s' where
    r: "run lt (job_events d cws fin) s = Some s'" and
    f: "fs s' = (fs s)(filename s \<mapsto> stored cws @ drop (length (stored cws)) (contents (fs s) (filename s)))"
    by auto
  have "step lt (OpenOk d) s =
          Some (s\<lparr>fd := d, fds := (fds s)(d \<mapsto> File (filename s) 0), fs := fs s,
                  pc := P_set_fd_open,
                  trace := trace s @ [Syslog LOG_INFO ''start printing to %s'' [A_str (filename s)],
                                     Open (filename s) [O_CREAT, O_WRONLY] S_IRUSR_S_IWUSR d]\<rparr>)"
    using assms(2-4,7)
    by (simp add: step_at do_open_def Let_def emit_def open_file_def open_flags_def map_upd_triv)
  then show ?thesis
    using r f assms(7) by (simp add: contents_def)
qed

text \<open>Twelve old bytes, three new ones: the last nine old bytes remain.\<close>

theorem open_keeps_old_bytes_witness:
  "\<exists>s'. run gmtime (job_events 5 [(''NEW'', WriteRet 3)] ReadEOF) ex_open_old = Some s' \<and>
      fs s' ex_name = Some ''NEW JOB DATA''"
proof -
  have "list_all chunk_ok [(''NEW'', WriteRet 3)]" "ends_read ReadEOF"
    by (simp_all add: chunk_ok_def BUFSIZE_def ends_read_def)
  from open_keeps_old_bytes [OF ex_open_old_reached ex_open_old_facts(1) _ ex_open_old_facts(2) this,
      of "''OLD JOB DATA''"]
  show ?thesis
    by (auto simp: ex_open_old_facts stored_def stored_of_def)
qed

subsection \<open>The cases of one step\<close>

lemma sys_close_fields:
  "pc (snd (sys_close d s)) = pc s" "fd (snd (sys_close d s)) = fd s" "sd (snd (sys_close d s)) = sd s"
  "client (snd (sys_close d s)) = client s" "fd_open (snd (sys_close d s)) = fd_open s"
  "client_connected (snd (sys_close d s)) = client_connected s" "fs (snd (sys_close d s)) = fs s"
  "t (snd (sys_close d s)) = t s" "filename (snd (sys_close d s)) = filename s"
  "fds (snd (sys_close d s)) = (fds s)(d := None)"
  "trace (snd (sys_close d s)) = trace s @ [Close d (if fds s d = None then - 1 else 0)]"
  by (auto simp: sys_close_def emit_def split: option.splits)

lemma step_elim [consumes 1, case_names signal ignored tick accept_ok accept_fail connected
    localtime_ok localtime_fail rand open_ok open_fail set_fd_open read_data read_eof read_err
    write_ret write_err finished close_fd close_client clear_fd_open clear_connected]:
  assumes "step lt ev s = Some s'"
  obtains
    (signal) signum where "pc s \<noteq> P_exited" "ev = Signal signum" "s' = sig_handler signum s"
  | (ignored) signum where "pc s \<noteq> P_exited" "ev = Signal signum" "s' = s"
  | (tick) k where "pc s \<noteq> P_exited" "ev = Tick k" "s' = s\<lparr>now := now s + int k\<rparr>"
  | (accept_ok) d where "pc s = P_accept" "ev = AcceptOk d" "0 \<le> d" "fds s d = None"
      "fds s (sd s) = Some Listener"
      "s' = s\<lparr>client := d, fds := (fds s)(d \<mapsto> Conn), pc := P_connected,
               trace := trace s @ [Accept (sd s) d]\<rparr>"
  | (accept_fail) e where "pc s = P_accept" "ev = AcceptFail e"
      "s' = s\<lparr>client := - 1, errno := e, pc := P_accept,
               trace := trace s @ [Accept (sd s) (- 1),
                 Syslog LOG_WARNING (''error on accept(): %s'' @ nl) [A_strerror e]]\<rparr>"
  | (connected) "pc s = P_connected" "ev = Step"
      "s' = s\<lparr>client_connected := True, pc := P_localtime,
               trace := trace s @ [Syslog LOG_INFO ''accepted new print client'' []]\<rparr>"
  | (localtime_ok) x timestamp where "pc s = P_localtime" "ev = Step" "lt (t s) = Some x"
      "strftime TIMESTAMP_SIZE x = Some timestamp"
      "s' = s\<lparr>filename := snprintf FILENAME_SIZE (PRINTOUT_PREFIX @ timestamp), pc := P_open\<rparr>"
  | (localtime_fail) "pc s = P_localtime" "ev = Step"
      "s' = s\<lparr>pc := P_rand,
               trace := trace s @ [Syslog LOG_WARNING (''error getting current time'' @ nl) []]\<rparr>"
  | (rand) r name where "pc s = P_rand" "ev = RandRet r" "0 \<le> r" "r \<le> RAND_MAX"
      "name = snprintf FILENAME_SIZE (PRINTOUT_PREFIX @ ''file-'' @ string_of_int r)"
      "s' = s\<lparr>random := r, filename := name,
               errno := (if fs s name = None then ENOENT else errno s),
               pc := (if fs s name = None then P_open else P_rand),
               trace := trace s @ [Rand r, Access name (if fs s name = None then - 1 else 0)]\<rparr>"
  | (open_ok) d where "pc s = P_open" "ev = OpenOk d" "0 \<le> d" "fds s d = None"
      "s' = s\<lparr>fd := d, fds := (fds s)(d \<mapsto> File (filename s) 0),
               fs := (fs s)(filename s \<mapsto> contents (fs s) (filename s)), pc := P_set_fd_open,
               trace := trace s @ [Syslog LOG_INFO ''start printing to %s'' [A_str (filename s)],
                 Open (filename s) open_flags S_IRUSR_S_IWUSR d]\<rparr>"
  | (open_fail) e where "pc s = P_open" "ev = OpenFail e"
      "s' = s\<lparr>fd := - 1, errno := e, pc := P_accept,
               trace := trace s @ [Syslog LOG_INFO ''start printing to %s'' [A_str (filename s)],
                 Open (filename s) open_flags S_IRUSR_S_IWUSR (- 1),
                 Syslog LOG_WARNING ''error opening printfile %s: %s''
                   [A_str (filename s), A_strerror e]]\<rparr>"
  | (set_fd_open) "pc s = P_set_fd_open" "ev = Step"
      "s' = s\<lparr>fd_open := True, bytes_read := 0, pc := P_read\<rparr>"
  | (read_data) bs where "pc s = P_read" "ev = ReadData bs" "fds s (client s) = Some Conn"
      "0 < length bs" "length bs \<le> BUFSIZE"
      "s' = s\<lparr>msg := bs @ drop (length bs) (msg s), bytes_read := int (length bs), pc := P_write,
               trace := trace s @ [Read (client s) BUFSIZE (int (length bs))]\<rparr>"
  | (read_eof) "pc s = P_read" "ev = ReadEOF" "fds s (client s) = Some Conn"
      "s' = s\<lparr>bytes_read := 0, pc := P_done, trace := trace s @ [Read (client s) BUFSIZE 0]\<rparr>"
  | (read_err) e where "pc s = P_read" "ev = ReadErr e"
      "s' = s\<lparr>bytes_read := - 1, errno := e, pc := P_done,
               trace := trace s @ [Read (client s) BUFSIZE (- 1)]\<rparr>"
  | (write_ret) k name off where "pc s = P_write" "ev = WriteRet k"
      "fds s (fd s) = Some (File name off)" "k \<le> length (take (nat (bytes_read s)) (msg s))"
      "s' = s\<lparr>fs := (fs s)(name \<mapsto> pwrite (contents (fs s) name) off
                        (take k (take (nat (bytes_read s)) (msg s)))),
               fds := (fds s)(fd s \<mapsto> File name (off + k)), pc := P_read,
               trace := trace s @ [Write (fd s) (take (nat (bytes_read s)) (msg s)) (int k)]\<rparr>"
  | (write_err) e where "pc s = P_write" "ev = WriteErr e"
      "s' = s\<lparr>errno := e, pc := P_read,
               trace := trace s @ [Write (fd s) (take (nat (bytes_read s)) (msg s)) (- 1)]\<rparr>"
  | (finished) "pc s = P_done" "ev = Step"
      "s' = s\<lparr>msg := replicate BUFSIZE (CHR 0x00), pc := P_close_fd,
               trace := trace s @ [Syslog LOG_INFO ''done printing to %s'' [A_str (filename s)]]\<rparr>"
  | (close_fd) "pc s = P_close_fd" "ev = Step"
      "s' = (snd (sys_close (fd s) s))\<lparr>pc := P_close_client\<rparr>"
  | (close_client) "pc s = P_close_client" "ev = Step"
      "s' = (snd (sys_close (client s) s))\<lparr>pc := P_clear_fd_open\<rparr>"
  | (clear_fd_open) "pc s = P_clear_fd_open" "ev = Step"
      "s' = s\<lparr>fd_open := False, pc := P_clear_connected\<rparr>"
  | (clear_connected) "pc s = P_clear_connected" "ev = Step"
      "s' = s\<lparr>client_connected := False, pc := P_accept\<rparr>"
proof -
  have ne: "pc s \<noteq> P_exited"
    using assms by (auto simp: step_def split: if_splits)
  show thesis
  proof (cases ev)
    case (Signal signum)
    with assms ne signal ignored show thesis
      by (auto simp: step_def split: if_splits)
  next
    case (Tick k)
    with assms ne tick show thesis
      by (auto simp: step_def)
  next
    case Step
    with assms ne have st: "statement lt Step s = Some s'"
      by (simp add: step_def)
    show thesis
    proof (cases "pc s")
      case P_connected
      with st Step connected show thesis
        by (auto simp: statement_def do_connected_def emit_def)
    next
      case P_localtime
      with st Step localtime_ok localtime_fail show thesis
        by (auto simp: statement_def do_localtime_def emit_def split: option.splits)
    next
      case P_set_fd_open
      with st Step set_fd_open show thesis
        by (auto simp: statement_def do_set_fd_open_def)
    next
      case P_done
      with st Step finished show thesis
        by (auto simp: statement_def do_done_def emit_def)
    next
      case P_close_fd
      with st Step close_fd show thesis
        by (auto simp: statement_def do_close_fd_def)
    next
      case P_close_client
      with st Step close_client show thesis
        by (auto simp: statement_def do_close_client_def)
    next
      case P_clear_fd_open
      with st Step clear_fd_open show thesis
        by (auto simp: statement_def do_clear_fd_open_def)
    next
      case P_clear_connected
      with st Step clear_connected show thesis
        by (auto simp: statement_def do_clear_connected_def)
    qed (use st in \<open>simp_all add: statement_def do_accept_def do_rand_def do_open_def Let_def
           do_read_def do_write_def\<close>)
  next
    case (AcceptOk d)
    with assms ne have st: "statement lt (AcceptOk d) s = Some s'"
      by (simp add: step_def)
    then have p: "pc s = P_accept"
      by (cases "pc s") (simp_all add: statement_def stmt_defs Let_def)
    with st AcceptOk accept_ok show thesis
      by (auto simp: statement_def do_accept_def emit_def split: if_splits)
  next
    case (AcceptFail e)
    with assms ne have st: "statement lt (AcceptFail e) s = Some s'"
      by (simp add: step_def)
    then have p: "pc s = P_accept"
      by (cases "pc s") (simp_all add: statement_def stmt_defs Let_def)
    with st AcceptFail accept_fail show thesis
      by (auto simp: statement_def do_accept_def emit_def split: if_splits)
  next
    case (RandRet r)
    with assms ne have st: "statement lt (RandRet r) s = Some s'"
      by (simp add: step_def)
    then have p: "pc s = P_rand"
      by (cases "pc s") (simp_all add: statement_def stmt_defs Let_def)
    with st RandRet rand [of r] show thesis
      by (auto simp: statement_def do_rand_def emit_def Let_def split: if_splits)
  next
    case (OpenOk d)
    with assms ne have st: "statement lt (OpenOk d) s = Some s'"
      by (simp add: step_def)
    then have p: "pc s = P_open"
      by (cases "pc s") (simp_all add: statement_def stmt_defs Let_def)
    with st OpenOk open_ok show thesis
      by (auto simp: statement_def do_open_def emit_def Let_def open_file_create split: if_splits)
  next
    case (OpenFail e)
    with assms ne have st: "statement lt (OpenFail e) s = Some s'"
      by (simp add: step_def)
    then have p: "pc s = P_open"
      by (cases "pc s") (simp_all add: statement_def stmt_defs Let_def)
    with st OpenFail open_fail show thesis
      by (auto simp: statement_def do_open_def emit_def Let_def)
  next
    case (ReadData bs)
    with assms ne have st: "statement lt (ReadData bs) s = Some s'"
      by (simp add: step_def)
    then have p: "pc s = P_read"
      by (cases "pc s") (simp_all add: statement_def stmt_defs Let_def)
    with st ReadData read_data show thesis
      by (auto simp: statement_def do_read_def emit_def split: if_splits)
  next
    case ReadEOF
    with assms ne have st: "statement lt ReadEOF s = Some s'"
      by (simp add: step_def)
    then have p: "pc s = P_read"
      by (cases "pc s") (simp_all add: statement_def stmt_defs Let_def)
    with st ReadEOF read_eof show thesis
      by (auto simp: statement_def do_read_def emit_def split: if_splits)
  next
    case (ReadErr e)
    with assms ne have st: "statement lt (ReadErr e) s = Some s'"
      by (simp add: step_def)
    then have p: "pc s = P_read"
      by (cases "pc s") (simp_all add: statement_def stmt_defs Let_def)
    with st ReadErr read_err show thesis
      by (auto simp: statement_def do_read_def emit_def split: if_splits)
  next
    case (WriteRet k)
    with assms ne have st: "statement lt (WriteRet k) s = Some s'"
      by (simp add: step_def)
    then have p: "pc s = P_write"
      by (cases "pc s") (simp_all add: statement_def stmt_defs Let_def)
    with st WriteRet write_ret [of k] show thesis
      by (auto simp: statement_def do_write_def emit_def Let_def split: if_splits option.splits handle.splits)
  next
    case (WriteErr e)
    with assms ne have st: "statement lt (WriteErr e) s = Some s'"
      by (simp add: step_def)
    then have p: "pc s = P_write"
      by (cases "pc s") (simp_all add: statement_def stmt_defs Let_def)
    with st WriteErr write_err show thesis
      by (auto simp: statement_def do_write_def emit_def Let_def)
  qed
qed


subsection \<open>What runs preserve\<close>

lemma reads_on_append: "reads_on d (xs @ ys) = reads_on d xs @ reads_on d ys"
  by (induction xs rule: reads_on.induct) simp_all

lemma close_logged_reads: "reads_on c (trace (close_logged w d s)) = reads_on c (trace s)"
  by (simp add: close_logged_trace close_calls_def reads_on_append)

lemma sig_handler_reads: "reads_on c (trace (sig_handler signum s)) = reads_on c (trace s)"
  by (simp add: sig_handler_def Let_def emit_def sys_exit_def close_logged_fields close_logged_reads
      reads_on_append)

lemma sig_handler_client: "client (sig_handler signum s) = client s"
  by (simp add: sig_handler_def Let_def emit_def sys_exit_def close_logged_fields)

lemma run_exited: "pc s = P_exited \<Longrightarrow> run lt evs s = Some s' \<Longrightarrow> s' = s"
  by (cases evs) (simp_all add: step_def)

lemma sig_handler_t: "t (sig_handler signum s) = t s"
  by (simp add: sig_handler_def Let_def emit_def sys_exit_def close_logged_fields)

lemma fs_grows_step:
  assumes "step lt ev s = Some s'" "fs s name \<noteq> None"
  shows "fs s' name \<noteq> None"
  using assms
  by (cases rule: step_elim; auto simp: sig_handler_fields sys_close_fields)

lemma fs_grows: "run lt evs s = Some s' \<Longrightarrow> fs s name \<noteq> None \<Longrightarrow> fs s' name \<noteq> None"
  by (induction evs arbitrary: s) (auto split: option.splits dest: fs_grows_step)

lemma t_kept_step:
  assumes "step lt ev s = Some s'"
  shows "t s' = t s"
  using assms
  by (cases rule: step_elim; auto simp: sig_handler_t sys_close_fields)

lemma t_kept: "run lt evs s = Some s' \<Longrightarrow> t s' = t s"
  by (induction evs arbitrary: s) (auto split: option.splits dest: t_kept_step)

lemma tidy_init: "tidy (init t0 sd0 files)"
  by (simp add: tidy_def init_def pcs_defs)

lemma tidy_step:
  assumes "step lt ev s = Some s'" "inv s" "tidy s" "\<not> is_open_failure ev"
  shows "tidy s'"
  using assms
proof (cases rule: step_elim)
  case (signal signum)
  then show ?thesis
    by (simp add: tidy_def sig_handler_fields)
next
  case (ignored signum)
  with assms show ?thesis
    by simp
next
  case (tick k)
  with assms show ?thesis
    by (simp add: tidy_def)
next
  case close_fd
  with assms show ?thesis
    by (auto simp: tidy_def inv_def pcs_defs sys_close_fields split: if_splits)
next
  case close_client
  with assms show ?thesis
    by (auto simp: tidy_def inv_def pcs_defs sys_close_fields split: if_splits)
qed (use assms(3,4) in \<open>auto simp: tidy_def pcs_defs is_open_failure_def split: if_splits\<close>)

lemma tidy_run:
  "run lt evs s = Some s' \<Longrightarrow> inv s \<Longrightarrow> tidy s \<Longrightarrow> \<not> list_ex is_open_failure evs \<Longrightarrow> tidy s'"
proof (induction evs arbitrary: s)
  case Nil
  then show ?case by simp
next
  case (Cons ev evs)
  from Cons.prems(1) obtain s1 where
    st: "step lt ev s = Some s1" and r: "run lt evs s1 = Some s'"
    by (auto split: option.splits)
  from Cons.prems(4) have no: "\<not> is_open_failure ev" and nos: "\<not> list_ex is_open_failure evs"
    by simp_all
  have i1: "inv s1"
    using Cons.prems(2) st by (rule inv_step)
  have t1: "tidy s1"
    using st Cons.prems(2,3) no by (rule tidy_step)
  show ?case
    using r i1 t1 nos by (rule Cons.IH)
qed

lemma parked_step:
  assumes "step lt ev s = Some s'" "parked c s"
  shows "parked c s' \<and> reads_on c (trace s') = reads_on c (trace s)"
  using assms
  by (cases rule: step_elim;
       auto simp: parked_def sig_handler_fields sig_handler_reads sys_close_fields reads_on_append
         split: if_splits)

lemma parked_run:
  "run lt evs s = Some s' \<Longrightarrow> parked c s \<Longrightarrow>
     parked c s' \<and> reads_on c (trace s') = reads_on c (trace s)"
proof (induction evs arbitrary: s)
  case Nil
  then show ?case by simp
next
  case (Cons ev evs)
  from Cons.prems(1) obtain s1 where
    st: "step lt ev s = Some s1" and r: "run lt evs s1 = Some s'"
    by (auto split: option.splits)
  from parked_step [OF st Cons.prems(2)]
  have p1: "parked c s1" and r1: "reads_on c (trace s1) = reads_on c (trace s)"
    by simp_all
  from Cons.IH [OF r p1] r1 show ?case
    by simp
qed

lemma selecting_step:
  assumes "step lt ev s = Some s'" "pc s \<in> sel_pcs" "\<not> is_open_event ev"
  shows "(pc s' \<in> sel_pcs \<or> pc s' = P_exited) \<and> fs s' = fs s \<and> client s' = client s \<and>
         reads_on c (trace s') = reads_on c (trace s) \<and>
         (pc s' \<noteq> P_exited \<longrightarrow> fds s' = fds s \<and> fd s' = fd s)"
  using assms
proof (cases rule: step_elim)
  case (signal signum)
  then show ?thesis
    by (simp add: sig_handler_fields sig_handler_reads sig_handler_client)
qed (use assms in \<open>auto simp: sel_pcs_def is_open_event_def reads_on_append\<close>)

lemma selecting_run:
  "run lt evs s = Some s' \<Longrightarrow> pc s \<in> sel_pcs \<Longrightarrow> \<not> list_ex is_open_event evs \<Longrightarrow>
     (pc s' \<in> sel_pcs \<or> pc s' = P_exited) \<and> fs s' = fs s \<and> client s' = client s \<and>
     reads_on c (trace s') = reads_on c (trace s) \<and>
     (pc s' \<noteq> P_exited \<longrightarrow> fds s' = fds s \<and> fd s' = fd s)"
proof (induction evs arbitrary: s)
  case Nil
  then show ?case by simp
next
  case (Cons ev evs)
  from Cons.prems(1) obtain s1 where
    st: "step lt ev s = Some s1" and r: "run lt evs s1 = Some s'"
    by (auto split: option.splits)
  from Cons.prems(3) have no: "\<not> is_open_event ev" and nos: "\<not> list_ex is_open_event evs"
    by simp_all
  have one: "(pc s1 \<in> sel_pcs \<or> pc s1 = P_exited) \<and> fs s1 = fs s \<and> client s1 = client s \<and>
         reads_on c (trace s1) = reads_on c (trace s) \<and>
         (pc s1 \<noteq> P_exited \<longrightarrow> fds s1 = fds s \<and> fd s1 = fd s)"
    using st Cons.prems(2) no by (rule selecting_step)
  show ?case
  proof (cases "pc s1 = P_exited")
    case True
    from run_exited [OF True r] have "s' = s1" .
    with one show ?thesis
      by simp
  next
    case False
    with one have "pc s1 \<in> sel_pcs"
      by simp
    from Cons.IH [OF r this nos] one False show ?thesis
      by (simp)
  qed
qed

subsection \<open>Handles and flags\<close>

text \<open>
  Claim C3, as stated, fails in two ways. Between \<^verbatim>\<open>accept\<close> and the assignment of line
  183 the client socket is open and \<^verbatim>\<open>client_connected\<close> is clear (second and third
  conjunct). And after a failed open the accepted socket is left open, so that the next
  accept makes two client sockets open at once (first conjunct; this is the leak of claim
  C10).
\<close>

theorem two_clients_open_and_stale_flags:
  "handles_after gmtime [AcceptOk 4, Step, Step, OpenFail 13, AcceptOk 5]
     (init 1400000000 3 Map.empty) [4, 5] = Some [Some Conn, Some Conn]
   \<and> handles_after gmtime [AcceptOk 4] (init 1400000000 3 Map.empty) [4] = Some [Some Conn]
   \<and> flags_after gmtime [AcceptOk 4] (init 1400000000 3 Map.empty) = Some (False, False)"
  by (simp add: handles_after_def flags_after_def run_defs)

text \<open>
  Claim C3, amended. In every reachable state before exit: at most one output file is
  open, the one in \<^verbatim>\<open>fd\<close>, and it is open exactly at the statements from the
  assignment of line 202 to the \<^verbatim>\<open>close(fd)\<close> of line 208; \<^verbatim>\<open>fd_open\<close> is set exactly
  from the loop of line 204 to the assignment of line 210. So \<^verbatim>\<open>fd_open\<close> is set exactly
  when \<^verbatim>\<open>fd\<close> is open, except right after the open (before line 202) and between the
  close and line 210. On a run in which no open has failed, the same holds of the client
  socket: at most one is open, the one in \<^verbatim>\<open>client\<close>, and \<^verbatim>\<open>client_connected\<close> is set
  exactly when it is open, except right after the accept (before line 183) and between
  \<^verbatim>\<open>close(client)\<close> and line 211.
\<close>

theorem handles_and_flags:
  assumes "run lt evs (init t0 sd0 files) = Some s" and "pc s \<noteq> P_exited"
  shows "open_files s \<subseteq> {fd s}
       \<and> (fd s \<in> open_files s) = (pc s \<in> file_pcs)
       \<and> fd_open s = (pc s \<in> fd_open_pcs)
       \<and> (pc s \<notin> {P_set_fd_open, P_close_client, P_clear_fd_open} \<longrightarrow>
            fd_open s = (fd s \<in> open_files s))
       \<and> (\<not> list_ex is_open_failure evs \<longrightarrow>
            open_clients s \<subseteq> {client s}
          \<and> (client s \<in> open_clients s) = (pc s \<in> conn_pcs)
          \<and> client_connected s = (pc s \<in> connected_pcs)
          \<and> (pc s \<notin> {P_connected, P_clear_fd_open, P_clear_connected} \<longrightarrow>
               client_connected s = (client s \<in> open_clients s)))"
proof -
  have i: "inv s"
    using assms(1) by (rule reach_inv)
  have isf: "\<And>h. is_file h = (\<exists>name off. h = Some (File name off))"
    by (rule iffI) (auto elim: is_fileE)
  have f1: "open_files s \<subseteq> {fd s}"
    using i by (auto simp: inv_def open_files_def isf)
  have f2: "(fd s \<in> open_files s) = (pc s \<in> file_pcs)"
    using i by (auto simp: inv_def open_files_def isf)
  have f3: "fd_open s = (pc s \<in> fd_open_pcs)"
    using i assms(2) by (simp add: inv_def)
  have f4: "pc s \<notin> {P_set_fd_open, P_close_client, P_clear_fd_open} \<longrightarrow>
      fd_open s = (fd s \<in> open_files s)"
    unfolding f2 f3 by (auto simp: pcs_defs)
  have c: "open_clients s \<subseteq> {client s}
          \<and> (client s \<in> open_clients s) = (pc s \<in> conn_pcs)
          \<and> client_connected s = (pc s \<in> connected_pcs)
          \<and> (pc s \<notin> {P_connected, P_clear_fd_open, P_clear_connected} \<longrightarrow>
               client_connected s = (client s \<in> open_clients s))"
    if no: "\<not> list_ex is_open_failure evs"
  proof -
    have td: "tidy s"
      using assms(1) inv_init tidy_init no by (rule tidy_run)
    have c1: "open_clients s \<subseteq> {client s}"
      using td by (auto simp: tidy_def open_clients_def)
    have c2: "(client s \<in> open_clients s) = (pc s \<in> conn_pcs)"
      using td i by (auto simp: tidy_def inv_def open_clients_def)
    have c3: "client_connected s = (pc s \<in> connected_pcs)"
      using td assms(2) by (simp add: tidy_def)
    have c4: "pc s \<notin> {P_connected, P_clear_fd_open, P_clear_connected} \<longrightarrow>
        client_connected s = (client s \<in> open_clients s)"
      unfolding c2 c3 by (auto simp: pcs_defs)
    from c1 c2 c3 c4 show ?thesis
      by blast
  qed
  from f1 f2 f3 f4 c show ?thesis
    by blast
qed

text \<open>The state in which the first client's copy loop is about to read.\<close>

theorem handles_and_flags_witness:
  "open_files ex_read \<subseteq> {5} \<and> open_clients ex_read \<subseteq> {4} \<and> 5 \<in> open_files ex_read \<and>
   4 \<in> open_clients ex_read \<and> fd_open ex_read \<and> client_connected ex_read"
proof -
  have "pc ex_read \<noteq> P_exited" "\<not> list_ex is_open_failure [AcceptOk 4, Step, Step, OpenOk 5, Step]"
    by (simp_all add: ex_read_facts is_open_failure_def)
  from handles_and_flags [OF ex_read_reached this(1)] this(2)
  show ?thesis
    by (simp add: ex_read_facts pcs_defs)
qed

subsection \<open>A failed open\<close>

lemma lost_step:
  assumes "step lt ev s = Some s'" "lost c s"
  shows "lost c s'"
  using assms
  by (cases rule: step_elim;
       auto simp: lost_def sig_handler_fields sys_close_fields split: if_splits)

lemma lost_run: "run lt evs s = Some s' \<Longrightarrow> lost c s \<Longrightarrow> lost c s'"
proof (induction evs arbitrary: s)
  case Nil
  then show ?case by simp
next
  case (Cons ev evs)
  from Cons.prems(1) obtain s1 where
    st: "step lt ev s = Some s1" and r: "run lt evs s1 = Some s'"
    by (auto split: option.splits)
  from lost_step [OF st Cons.prems(2)] have "lost c s1" .
  with r show ?case
    by (rule Cons.IH)
qed

text \<open>
  Claim C10. In every reachable state in which a file name has been chosen: when the
  open fails, the program logs the warning and stands at \<^verbatim>\<open>accept\<close> again, having
  closed nothing: \<^verbatim>\<open>client_connected\<close> is still set, \<^verbatim>\<open>client\<close> still holds the
  accepted socket and that socket is still open. The next successful accept puts its new
  descriptor, a different one, into \<^verbatim>\<open>client\<close>; from then on, as long as the process has
  not exited, the first socket stays open and neither \<^verbatim>\<open>client\<close> nor \<^verbatim>\<open>fd\<close> ever
  holds it.
\<close>

theorem failed_open_leaks_client:
  assumes "run lt evs0 (init t0 sd0 files) = Some s" and "pc s = P_open"
    and "step lt (OpenFail e) s = Some s1" and "step lt (AcceptOk d) s1 = Some s2"
    and "run lt evs s2 = Some s3" and "pc s3 \<noteq> P_exited"
  shows "pc s1 = P_accept \<and> client_connected s1 \<and> client s1 = client s \<and> fds s1 = fds s
       \<and> fds s (client s) = Some Conn
       \<and> calls_since s s1 =
           [Syslog LOG_INFO ''start printing to %s'' [A_str (filename s)],
            Open (filename s) open_flags S_IRUSR_S_IWUSR (- 1),
            Syslog LOG_WARNING ''error opening printfile %s: %s'' [A_str (filename s), A_strerror e]]
       \<and> client s2 = d \<and> d \<noteq> client s \<and> fds s2 (client s) = Some Conn
       \<and> fds s3 (client s) = Some Conn \<and> client s3 \<noteq> client s \<and> fd s3 \<noteq> client s"
proof -
  have i: "inv s"
    using assms(1) by (rule reach_inv)
  have conn: "fds s (client s) = Some Conn" and flag: "client_connected s" and nn: "0 \<le> client s"
    using i assms(2) by (auto simp: inv_def pcs_defs)
  from assms(3) have s1: "s1 = s\<lparr>fd := - 1, errno := e, pc := P_accept,
               trace := trace s @ [Syslog LOG_INFO ''start printing to %s'' [A_str (filename s)],
                 Open (filename s) open_flags S_IRUSR_S_IWUSR (- 1),
                 Syslog LOG_WARNING ''error opening printfile %s: %s''
                   [A_str (filename s), A_strerror e]]\<rparr>"
    by (cases rule: step_elim) (use assms(2) in simp_all)
  from assms(4) have s2: "fds s1 d = None" "s2 = s1\<lparr>client := d, fds := (fds s1)(d \<mapsto> Conn),
        pc := P_connected, trace := trace s1 @ [Accept (sd s1) d]\<rparr>"
    by (cases rule: step_elim; use s1 in simp)+
  have ne: "d \<noteq> client s"
    using s2(1) s1 conn by auto
  have "lost (client s) s2"
    using s1 s2 conn nn ne by (simp add: lost_def)
  with assms(5) have "lost (client s) s3"
    by (rule lost_run)
  with assms(6) have l3: "fds s3 (client s) = Some Conn" "client s3 \<noteq> client s" "fd s3 \<noteq> client s"
    by (simp_all add: lost_def)
  have "calls_since s s1 =
           [Syslog LOG_INFO ''start printing to %s'' [A_str (filename s)],
            Open (filename s) open_flags S_IRUSR_S_IWUSR (- 1),
            Syslog LOG_WARNING ''error opening printfile %s: %s'' [A_str (filename s), A_strerror e]]"
    using s1 by (simp add: calls_since_def)
  then show ?thesis
    using s1 s2 conn flag ne l3 by simp
qed

text \<open>
  The open for the first client (descriptor 4) fails with \<^verbatim>\<open>EACCES\<close>; a second client
  is accepted on descriptor 5 and its job runs to the end; descriptor 4 is still open.
\<close>

theorem failed_open_leaks_client_witness:
  "\<exists>s1 s2 s3. step gmtime (OpenFail 13) ex_open = Some s1 \<and> step gmtime (AcceptOk 5) s1 = Some s2 \<and>
      run gmtime ([Step, Step] @ job_events 6 [(''X'', WriteRet 1)] ReadEOF) s2 = Some s3 \<and>
      pc s3 = P_accept \<and> client_connected s1 \<and> fds s1 4 = Some Conn \<and> client s2 = 5 \<and>
      fds s3 4 = Some Conn \<and> client s3 \<noteq> 4"
proof -
  have "\<exists>s1 s2 s3. step gmtime (OpenFail 13) ex_open = Some s1 \<and> step gmtime (AcceptOk 5) s1 = Some s2 \<and>
      run gmtime ([Step, Step] @ job_events 6 [(''X'', WriteRet 1)] ReadEOF) s2 = Some s3 \<and>
      pc s3 = P_accept"
    by (simp add: ex_open_def ex_name_def job_events_def copy_events_def run_defs)
  then obtain s1 s2 s3 where
    a: "step gmtime (OpenFail 13) ex_open = Some s1" "step gmtime (AcceptOk 5) s1 = Some s2"
       "run gmtime ([Step, Step] @ job_events 6 [(''X'', WriteRet 1)] ReadEOF) s2 = Some s3"
       "pc s3 = P_accept"
    by blast
  from a(4) have "pc s3 \<noteq> P_exited"
    by simp
  from failed_open_leaks_client [OF ex_open_reached ex_open_facts(1) a(1,2,3) this] a
  show ?thesis
    by (auto simp: ex_open_facts)
qed

subsection \<open>The fallback file name\<close>

lemma length_string_of_nat: "0 < k \<Longrightarrow> n < 10 ^ k \<Longrightarrow> length (string_of_nat n) \<le> k"
proof (induction k arbitrary: n)
  case 0
  then show ?case by simp
next
  case (Suc k)
  show ?case
  proof (cases "n < 10")
    case True
    then show ?thesis
      by (simp add: string_of_nat.simps [of n])
  next
    case False
    then have k: "0 < k"
      using Suc.prems(2) by (cases k) simp_all
    have "n div 10 < 10 ^ k"
      using Suc.prems(2) by (simp add: less_mult_imp_div_less mult.commute)
    from Suc.IH [OF k this] False show ?thesis
      by (simp add: string_of_nat.simps [of n])
  qed
qed

lemma fallback_name_fits:
  assumes "0 \<le> r" "r \<le> RAND_MAX"
  shows "snprintf FILENAME_SIZE (PRINTOUT_PREFIX @ ''file-'' @ string_of_int r) =
           PRINTOUT_PREFIX @ ''file-'' @ string_of_int r"
proof -
  have "nat r < 10 ^ 10"
    using assms by (simp add: RAND_MAX_def)
  then have "length (string_of_nat (nat r)) \<le> 10"
    by (intro length_string_of_nat) simp_all
  then show ?thesis
    using assms(1) by (simp add: snprintf_def FILENAME_SIZE_def PRINTOUT_PREFIX_def string_of_int_def)
qed

lemma rand_step:
  assumes "step lt (RandRet r) s = Some s'"
  shows "pc s = P_rand \<and> filename s' = PRINTOUT_PREFIX @ ''file-'' @ string_of_int r \<and>
         trace s' = trace s @ [Rand r, Access (filename s') (if fs s (filename s') = None then - 1 else 0)] \<and>
         pc s' = (if fs s (filename s') = None then P_open else P_rand) \<and> fs s' = fs s"
  using assms
proof (cases rule: step_elim)
  case (rand r0 name)
  then have "name = PRINTOUT_PREFIX @ ''file-'' @ string_of_int r"
    using fallback_name_fits [of r] by simp
  with rand show ?thesis
    by simp
qed simp_all

text \<open>
  Claim C7. Wherever the fallback loop stands: a turn draws \<open>r0\<close>, sets the name to
  \<^verbatim>\<open>/usb/tcp_fileprinter/file-\<close> followed by \<open>r0\<close> in decimal, probes it with
  \<^verbatim>\<open>access\<close>, and goes on to the open only when no file of that name exists; otherwise
  it draws again. Hence for two names it accepts, the file of the first having been
  opened (and so created) in between, whatever else happened in between: the first name
  was free when accepted, its file exists when the second is accepted, the second is free
  then, and the two names differ.
\<close>

theorem fallback_names_are_probed_and_differ:
  assumes "pc s = P_rand"
  shows "(\<forall>r0 s0. step lt (RandRet r0) s = Some s0 \<longrightarrow>
            filename s0 = PRINTOUT_PREFIX @ ''file-'' @ string_of_int r0 \<and>
            calls_since s s0 =
              [Rand r0, Access (filename s0) (if fs s (filename s0) = None then - 1 else 0)] \<and>
            pc s0 = (if fs s (filename s0) = None then P_open else P_rand))
       \<and> (\<forall>r d evs r' s'.
            run lt (RandRet r # OpenOk d # evs @ [RandRet r']) s = Some s' \<and> pc s' = P_open \<longrightarrow>
              fs s (PRINTOUT_PREFIX @ ''file-'' @ string_of_int r) = None \<and>
              fs s' (PRINTOUT_PREFIX @ ''file-'' @ string_of_int r) \<noteq> None \<and>
              filename s' = PRINTOUT_PREFIX @ ''file-'' @ string_of_int r' \<and>
              fs s' (filename s') = None \<and>
              filename s' \<noteq> PRINTOUT_PREFIX @ ''file-'' @ string_of_int r)"
proof -
  have part1: "filename s0 = PRINTOUT_PREFIX @ ''file-'' @ string_of_int r0 \<and>
        calls_since s s0 =
          [Rand r0, Access (filename s0) (if fs s (filename s0) = None then - 1 else 0)] \<and>
        pc s0 = (if fs s (filename s0) = None then P_open else P_rand)"
    if "step lt (RandRet r0) s = Some s0" for r0 s0
    using rand_step [OF that] by (simp add: calls_since_def)
  have part2: "fs s (PRINTOUT_PREFIX @ ''file-'' @ string_of_int r) = None \<and>
        fs s' (PRINTOUT_PREFIX @ ''file-'' @ string_of_int r) \<noteq> None \<and>
        filename s' = PRINTOUT_PREFIX @ ''file-'' @ string_of_int r' \<and>
        fs s' (filename s') = None \<and>
        filename s' \<noteq> PRINTOUT_PREFIX @ ''file-'' @ string_of_int r"
    if a: "run lt (RandRet r # OpenOk d # evs @ [RandRet r']) s = Some s' \<and> pc s' = P_open"
    for r d evs r' s'
  proof -
    let ?first = "PRINTOUT_PREFIX @ ''file-'' @ string_of_int r"
    from a obtain sa sb sc where
      ra: "step lt (RandRet r) s = Some sa" and rb: "step lt (OpenOk d) sa = Some sb" and
      rc: "run lt evs sb = Some sc" and rd: "step lt (RandRet r') sc = Some s'"
      by (auto simp: run_append split: option.splits)
    from rand_step [OF ra] have
      na: "filename sa = ?first" and pa: "pc sa = (if fs s ?first = None then P_open else P_rand)"
      by simp_all
    from rb have pb: "pc sa = P_open" and fb: "fs sb (filename sa) \<noteq> None"
      by (cases rule: step_elim; simp)+
    from pa pb have one: "fs s ?first = None"
      by (simp split: if_splits)
    from fs_grows [OF rc] fb na have fc: "fs sc ?first \<noteq> None"
      by simp
    from rand_step [OF rd] a have
      nd: "filename s' = PRINTOUT_PREFIX @ ''file-'' @ string_of_int r'" and
      fd: "fs sc (filename s') = None" and fe: "fs s' = fs sc"
      by (simp_all split: if_splits)
    from fc fd have "filename s' \<noteq> ?first"
      by auto
    with one fc nd fd fe show ?thesis
      by simp
  qed
  from part1 part2 show ?thesis
    by blast
qed

lemma ex_rand_reached: "run no_clock [AcceptOk 4, Step, Step] (init 1400000000 3 Map.empty) = Some ex_rand"
  by (simp add: run_defs ex_rand_def no_clock_def)

text \<open>
  The clock fails. The first job gets \<^verbatim>\<open>file-7\<close> and stores one byte. For the second
  job the generator draws 7 again, finds the file and draws again: 8 is accepted.
\<close>

theorem fallback_names_are_probed_and_differ_witness:
  "\<exists>s'. run no_clock
       (RandRet 7 # OpenOk 5 # ([Step] @ copy_events [(''A'', WriteRet 1)]
          @ [ReadEOF, Step, Step, Step, Step, Step, AcceptOk 4, Step, Step, RandRet 7]) @ [RandRet 8])
       ex_rand = Some s' \<and>
     pc s' = P_open \<and> filename s' = ''/usb/tcp_fileprinter/file-8'' \<and>
     fs s' ''/usb/tcp_fileprinter/file-7'' = Some ''A'' \<and> fs s' ''/usb/tcp_fileprinter/file-8'' = None"
proof -
  have "\<exists>s'. run no_clock
       (RandRet 7 # OpenOk 5 # ([Step] @ copy_events [(''A'', WriteRet 1)]
          @ [ReadEOF, Step, Step, Step, Step, Step, AcceptOk 4, Step, Step, RandRet 7]) @ [RandRet 8])
       ex_rand = Some s' \<and> pc s' = P_open \<and> fs s' ''/usb/tcp_fileprinter/file-7'' = Some ''A''"
    by (simp add: ex_rand_def no_clock_def copy_events_def run_defs)
  then obtain s' where
    a: "run no_clock
       (RandRet 7 # OpenOk 5 # ([Step] @ copy_events [(''A'', WriteRet 1)]
          @ [ReadEOF, Step, Step, Step, Step, Step, AcceptOk 4, Step, Step, RandRet 7]) @ [RandRet 8])
       ex_rand = Some s'" "pc s' = P_open" "fs s' ''/usb/tcp_fileprinter/file-7'' = Some ''A''"
    by blast
  have p: "pc ex_rand = P_rand"
    by (simp add: ex_rand_def)
  have n: "PRINTOUT_PREFIX @ ''file-'' @ string_of_int 8 = ''/usb/tcp_fileprinter/file-8''"
    by (simp add: fmt_defs PRINTOUT_PREFIX_def)
  from fallback_names_are_probed_and_differ [OF p, of no_clock] a(1,2)
  have "filename s' = PRINTOUT_PREFIX @ ''file-'' @ string_of_int 8 \<and> fs s' (filename s') = None"
    by blast
  with a n show ?thesis
    by auto
qed

end
